theory Spec2Isabelle
  imports Complex_Main
begin

section \<open>JavaScript strings\<close>

text \<open>
  A JavaScript string is a sequence of UTF-16 code units. The model uses \<open>string\<close>, one
  \<open>char\<close> per code unit, which covers the strings whose code units are below 256. The
  functions below are the built-in string methods the service calls, with the
  prefix \<open>js_\<close>.
\<close>

fun js_startsWith :: "string \<Rightarrow> string \<Rightarrow> bool" where
  "js_startsWith s [] = True"
| "js_startsWith [] (p # ps) = False"
| "js_startsWith (c # cs) (p # ps) = (c = p \<and> js_startsWith cs ps)"

fun js_includes :: "string \<Rightarrow> string \<Rightarrow> bool" where
  "js_includes [] sub = (sub = [])"
| "js_includes (c # cs) sub = (js_startsWith (c # cs) sub \<or> js_includes cs sub)"

text \<open>\<open>trim\<close> removes white space and line terminators at both ends; below 256 these
  are TAB, LF, VT, FF, CR, SP and NBSP.\<close>

definition js_whitespace :: "char \<Rightarrow> bool" where
  "js_whitespace c =
     (c = CHR 0x09 \<or> c = CHR 0x0A \<or> c = CHR 0x0B \<or> c = CHR 0x0C \<or> c = CHR 0x0D \<or>
      c = CHR 0x20 \<or> c = CHR 0xA0)"

definition js_trim :: "string \<Rightarrow> string" where
  "js_trim s = rev (dropWhile js_whitespace (rev (dropWhile js_whitespace s)))"

text \<open>\<open>s.split(sep)\<close> for a one-character separator: the pieces between the
  separators; a string without separator is the only piece.\<close>

function js_split :: "char \<Rightarrow> string \<Rightarrow> string list" where
  "js_split sep s =
     (case dropWhile (\<lambda>c. c \<noteq> sep) s of
        [] \<Rightarrow> [takeWhile (\<lambda>c. c \<noteq> sep) s]
      | _ # rest \<Rightarrow> takeWhile (\<lambda>c. c \<noteq> sep) s # js_split sep rest)"
  by pat_completeness auto
termination
proof (relation "measure (\<lambda>(sep, s). length s)")
  show "wf (measure (\<lambda>(sep, s). length s))"
    by simp
next
  fix sep :: char and s :: string and x rest
  assume "dropWhile (\<lambda>c. c \<noteq> sep) s = x # rest"
  then have "length (dropWhile (\<lambda>c. c \<noteq> sep) s) = Suc (length rest)"
    by simp
  moreover have "length (dropWhile (\<lambda>c. c \<noteq> sep) s) \<le> length s"
    by (rule length_dropWhile_le)
  ultimately show "((sep, rest), (sep, s)) \<in> measure (\<lambda>(sep, s). length s)"
    by simp
qed

declare js_split.simps [simp del]

fun js_join :: "string \<Rightarrow> string list \<Rightarrow> string" where
  "js_join sep [] = []"
| "js_join sep [l] = l"
| "js_join sep (l # l' # ls) = l @ sep @ js_join sep (l' # ls)"

text \<open>\<open>s.replace(pat, rep)\<close> with a string pattern replaces the first occurrence.\<close>

fun js_replace :: "string \<Rightarrow> string \<Rightarrow> string \<Rightarrow> string" where
  "js_replace [] pat rep = (if pat = [] then rep else [])"
| "js_replace (c # cs) pat rep =
     (if js_startsWith (c # cs) pat then rep @ drop (length pat) (c # cs)
      else c # js_replace cs pat rep)"

text \<open>\<open>toUpperCase\<close> on the letters a to z. The other code units below 256 never
  become \<open>N\<close> or \<open>O\<close>, the only letters the service looks for in the result.\<close>

definition js_toUpperCase :: "string \<Rightarrow> string" where
  "js_toUpperCase s =
     map (\<lambda>c. if 97 \<le> (of_char c :: nat) \<and> (of_char c :: nat) \<le> 122
              then char_of ((of_char c :: nat) - 32) else c) s"

text \<open>The regular expression class \<open>\d\<close> and \<open>parseInt(ds, 10)\<close> on a string of digits.
  The result is exact here; JavaScript rounds above \<open>2 ^ 53\<close>, far beyond any list
  length the result is compared with.\<close>

definition isDigit :: "char \<Rightarrow> bool" where
  "isDigit c = (48 \<le> (of_char c :: nat) \<and> (of_char c :: nat) \<le> 57)"

definition js_parseInt :: "string \<Rightarrow> nat" where
  "js_parseInt ds = foldl (\<lambda>n c. 10 * n + ((of_char c :: nat) - 48)) 0 ds"

text \<open>Number to string conversion in a template literal, for a natural number.\<close>

fun js_toString :: "nat \<Rightarrow> string" where
  "js_toString n =
     (if n < 10 then [char_of (48 + n)]
      else js_toString (n div 10) @ [char_of (48 + n mod 10)])"

declare js_toString.simps [simp del]

section \<open>Thrown values and the retry wrapper\<close>

text \<open>
  A thrown value is an \<open>Error\<close> instance, with its message and its optional
  \<open>cause\<close>, or any other value, with its \<open>message\<close> property when it has one.
\<close>

datatype thrown =
    JsError string "thrown option"
  | NonError "string option"

fun message_of :: "thrown \<Rightarrow> string option" where
  "message_of (JsError m c) = Some m"
| "message_of (NonError m) = m"

fun cause_of :: "thrown \<Rightarrow> thrown option" where
  "cause_of (JsError m c) = c"
| "cause_of (NonError m) = None"

text \<open>The outcome of one invocation of an asynchronous call.\<close>

datatype 'a outcome = Resolved 'a | Rejected thrown

text \<open>Line 21: the rate-limit signal. An absent or empty message is falsy.\<close>

definition isRateLimitError :: "thrown \<Rightarrow> bool" where
  "isRateLimitError error =
     (case message_of error of
        None \<Rightarrow> False
      | Some m \<Rightarrow>
          m \<noteq> [] \<and>
          (js_includes m ([CHR 0x22] @ ''status'' @ [CHR 0x22] @ '':'' @ [CHR 0x22] @
                          ''RESOURCE_EXHAUSTED'' @ [CHR 0x22])
           \<or> js_includes m ''429''))"

text \<open>
  \<open>callApiWithRetry\<close>, lines 15 to 37. The call \<open>apiCall\<close> may answer differently each
  time it is invoked: \<open>apiCall n\<close> is the outcome of its invocation number \<open>n\<close>, from 0.
  The loop state is \<open>retries\<close>, the number \<open>calls\<close> of invocations made so far and the
  waits made so far. A run returns the value or the thrown value, the number of
  invocations and the waits. Of each wait the model keeps
  \<open>initialDelay * 2 ^ (retries - 1)\<close>, in milliseconds; the random jitter below one
  second that line 29 adds is left out.
\<close>

type_synonym 'a retry_run = "(thrown + 'a) \<times> nat \<times> nat list"

function retry_loop ::
  "(nat \<Rightarrow> 'a outcome) \<Rightarrow> nat \<Rightarrow> nat \<Rightarrow> nat \<Rightarrow> nat \<Rightarrow> nat list \<Rightarrow> 'a retry_run" where
  "retry_loop apiCall maxRetries initialDelay retries calls waits =
     (case apiCall calls of
        Resolved v \<Rightarrow> (Inr v, Suc calls, waits)
      | Rejected error \<Rightarrow>
          if isRateLimitError error then
            if Suc retries > maxRetries then
              (Inl (JsError ''API rate limit exceeded after multiple retries.'' None),
               Suc calls, waits)
            else
              retry_loop apiCall maxRetries initialDelay (Suc retries) (Suc calls)
                (waits @ [initialDelay * 2 ^ (Suc retries - 1)])
          else (Inl error, Suc calls, waits))"
  by pat_completeness auto
termination
  by (relation "measure (\<lambda>(apiCall, maxRetries, initialDelay, retries, calls, waits).
        Suc maxRetries - retries)") auto

declare retry_loop.simps [simp del]

definition callApiWithRetry :: "(nat \<Rightarrow> 'a outcome) \<Rightarrow> nat \<Rightarrow> nat \<Rightarrow> 'a retry_run" where
  "callApiWithRetry apiCall maxRetries initialDelay =
     retry_loop apiCall maxRetries initialDelay 0 0 []"

text \<open>The default arguments of line 15, which every caller in the service uses.\<close>

definition callApiWithRetry_default :: "(nat \<Rightarrow> 'a outcome) \<Rightarrow> 'a retry_run" where
  "callApiWithRetry_default apiCall = callApiWithRetry apiCall 3 1000"

text \<open>An error \<open>e\<close> wraps \<open>c\<close> when \<open>c\<close> is the cause it carries.\<close>

definition wraps :: "thrown \<Rightarrow> thrown \<Rightarrow> bool" where
  "wraps e c = (cause_of e = Some c)"

section \<open>The data model\<close>

text \<open>
  The interfaces of \<open>types.ts\<close>. \<open>text\<close> is a keyword of Isabelle, so the field \<open>text\<close>
  of a question is \<open>q_text\<close> here (and its \<open>marks\<close> is \<open>q_marks\<close>), and the field
  \<open>text\<close> of the parsed notes is \<open>notes_text\<close>. \<open>null\<close> is \<open>None\<close>.
\<close>

record Source =
  uri :: string
  title :: string

record Question =
  q_text :: string
  q_marks :: "string option"

record Result =
  question :: string
  marks :: "string option"
  answer :: string
  imageUrl :: "string option"
  sources :: "Source list"

record ImagePart =
  data :: string
  mimeType :: string

record ParsedNotes =
  notes_text :: string
  images :: "ImagePart list"

section \<open>What the model service answers\<close>

text \<open>
  The parts of a \<open>GenerateContentResponse\<close> and of a \<open>GenerateImagesResponse\<close> that the
  service reads. Every property the service reads through \<open>?.\<close> or tests before use
  is optional here; \<open>None\<close> is \<open>undefined\<close>. The getter \<open>text\<close> of a response is
  \<open>response_text\<close>.
\<close>

datatype web_ref = WebRef (web_uri: "string option") (web_title: "string option")

datatype grounding_chunk = GroundingChunk (web: "web_ref option")

datatype grounding_metadata = GroundingMetadata (groundingChunks: "grounding_chunk list option")

datatype candidate = Candidate (groundingMetadata: "grounding_metadata option")

record GenerateContentResponse =
  response_text :: "string option"
  candidates :: "candidate list option"

datatype image_obj = Image (imageBytes: "string option")

datatype generated_image = GeneratedImage (image: "image_obj option")

record GenerateImagesResponse =
  generatedImages :: "generated_image list option"

text \<open>
  The requests the service sends, without the prompt text of a content request: the
  model and whether the search tool is enabled, or the model and the prompt of an
  image request. A logged call is one \<open>callApiWithRetry\<close> around a request, with the
  number of times the request was sent.
\<close>

datatype api_request =
    GenerateContent string bool
  | GenerateImages string string

type_synonym logged_call = "api_request \<times> nat"

definition liteModel :: string where
  "liteModel = ''gemini-flash-latest''"

definition proModel :: string where
  "proModel = ''gemini-2.5-pro''"

definition imageModel :: string where
  "imageModel = ''imagen-4.0-generate-001''"

text \<open>
  What the service answers while one question is processed: the outcome of each
  invocation of the probe request, of the synthesis request and of the image request.
\<close>

record llm_script =
  probeCall :: "nat \<Rightarrow> GenerateContentResponse outcome"
  synthesisCall :: "nat \<Rightarrow> GenerateContentResponse outcome"
  imageCall :: "nat \<Rightarrow> GenerateImagesResponse outcome"

section \<open>Parsing the synthesis output\<close>

text \<open>Lines 89 and 90: the test both \<open>find\<close> and \<open>filter\<close> apply to a line.\<close>

definition isDirectiveLine :: "string \<Rightarrow> bool" where
  "isDirectiveLine line =
     (js_startsWith line ''USE_IMAGE:'' \<or> js_startsWith line ''GENERATE_IMAGE_PROMPT:'')"

text \<open>\<open>parseAiResponse\<close>, lines 87 to 96; the result is the pair of \<open>answer\<close> and
  \<open>imageDirective\<close>. A line that \<open>find\<close> returns starts with a prefix, so it is truthy.\<close>

definition parseAiResponse :: "string \<Rightarrow> string \<times> string option" where
  "parseAiResponse fullText =
     (let lines = js_split (CHR 0x0A) fullText;
          directiveLine = find isDirectiveLine lines;
          answerLines = filter (\<lambda>line. \<not> isDirectiveLine line) lines
      in (js_trim (js_join [CHR 0x0A] answerLines), map_option js_trim directiveLine))"

text \<open>
  Line 172, \<open>imageDirective.match(/\[Image (\d+)\]/)\<close>: \<open>matchImageAt\<close> matches the
  expression at the start of a string and \<open>matchImage\<close> returns the first capture of
  the leftmost match. After \<open>[Image \<close> the digits are taken greedily; a shorter run
  of digits is followed by a digit, never by the closing bracket.
\<close>

definition matchImageAt :: "string \<Rightarrow> string option" where
  "matchImageAt s =
     (if js_startsWith s ''[Image '' then
        let ds = takeWhile isDigit (drop 7 s);
            after = dropWhile isDigit (drop 7 s)
        in if ds \<noteq> [] \<and> js_startsWith after '']'' then Some ds else None
      else None)"

fun matchImage :: "string \<Rightarrow> string option" where
  "matchImage [] = matchImageAt []"
| "matchImage (c # cs) =
     (case matchImageAt (c # cs) of
        Some ds \<Rightarrow> Some ds
      | None \<Rightarrow> matchImage cs)"

text \<open>Line 122: the label under which the prompt offers image number \<open>i\<close>, from 0.\<close>

definition imageLabel :: "nat \<Rightarrow> string" where
  "imageLabel i = ''[Image '' @ js_toString (i + 1) @ '']''"

text \<open>Line 177: the data URI of an image of the notes.\<close>

definition dataUri :: "ImagePart \<Rightarrow> string" where
  "dataUri reusedImage = ''data:'' @ mimeType reusedImage @ '';base64,'' @ data reusedImage"

text \<open>
  Lines 186 to 188: the data URI of the first generated image. Reading \<open>imageBytes\<close>
  of an absent \<open>image\<close> throws; the \<open>catch\<close> of line 189 leaves \<open>imageUrl\<close> null. An
  absent \<open>imageBytes\<close> prints as \<open>undefined\<close> in the template literal.
\<close>

definition generatedImageUrl :: "GenerateImagesResponse \<Rightarrow> string option" where
  "generatedImageUrl imageResponse =
     (case generatedImages imageResponse of
        None \<Rightarrow> None
      | Some [] \<Rightarrow> None
      | Some (g # _) \<Rightarrow>
          (case image g of
             None \<Rightarrow> None
           | Some im \<Rightarrow>
               Some (''data:image/jpeg;base64,'' @
                     (case imageBytes im of None \<Rightarrow> ''undefined'' | Some b \<Rightarrow> b))))"

text \<open>
  Image resolution, lines 170 to 193: from the images of the notes, the outcomes of the
  image request and the directive, the \<open>imageUrl\<close> and the calls made.
\<close>

definition resolveImage ::
  "ImagePart list \<Rightarrow> (nat \<Rightarrow> GenerateImagesResponse outcome) \<Rightarrow> string option
   \<Rightarrow> string option \<times> logged_call list" where
  "resolveImage imgs imgCall imageDirective =
     (case imageDirective of
        None \<Rightarrow> (None, [])
      | Some d \<Rightarrow>
          if js_startsWith d ''USE_IMAGE:'' then
            (case matchImage d of
               None \<Rightarrow> (None, [])
             | Some ds \<Rightarrow>
                 let imageIndex = int (js_parseInt ds) - 1
                 in if imageIndex \<ge> 0 \<and> imageIndex < int (length imgs)
                    then (Some (dataUri (imgs ! nat imageIndex)), [])
                    else (None, []))
          else if js_startsWith d ''GENERATE_IMAGE_PROMPT:'' then
            let imagePrompt = js_trim (js_replace d ''GENERATE_IMAGE_PROMPT:'' [])
            in if imagePrompt \<noteq> [] then
                 (case callApiWithRetry_default imgCall of
                    (Inl error, n, waits) \<Rightarrow> (None, [(GenerateImages imageModel imagePrompt, n)])
                  | (Inr imageResponse, n, waits) \<Rightarrow>
                      (generatedImageUrl imageResponse,
                       [(GenerateImages imageModel imagePrompt, n)]))
               else (None, [])
          else (None, []))"

section \<open>Processing one question\<close>

text \<open>Lines 166 to 168: the citations of the synthesis response.\<close>

definition chunkToSource :: "grounding_chunk \<Rightarrow> Source" where
  "chunkToSource chunk =
     \<lparr>uri = (case web chunk of
               None \<Rightarrow> []
             | Some w \<Rightarrow> (case web_uri w of None \<Rightarrow> [] | Some u \<Rightarrow> u)),
      title = (case web chunk of
                 None \<Rightarrow> []
               | Some w \<Rightarrow> (case web_title w of None \<Rightarrow> [] | Some t \<Rightarrow> t))\<rparr>"

definition extractSources :: "GenerateContentResponse \<Rightarrow> Source list" where
  "extractSources textResponse =
     (case candidates textResponse of
        None \<Rightarrow> []
      | Some [] \<Rightarrow> []
      | Some (c # _) \<Rightarrow>
          (case groundingMetadata c of
             None \<Rightarrow> []
           | Some gm \<Rightarrow>
               (case groundingChunks gm of
                  None \<Rightarrow> []
                | Some chunks \<Rightarrow> filter (\<lambda>source. uri source \<noteq> []) (map chunkToSource chunks))))"

text \<open>The \<open>TypeError\<close> of calling a method of \<open>undefined\<close>, with the message of V8.\<close>

definition typeError :: "string \<Rightarrow> thrown" where
  "typeError method =
     JsError (''Cannot read properties of undefined (reading '' @ [CHR 0x27] @ method @
              [CHR 0x27] @ '')'') None"

text \<open>Line 107.\<close>

definition needsWebSearch :: "string \<Rightarrow> bool" where
  "needsWebSearch probeText = js_includes (js_toUpperCase (js_trim probeText)) ''NO''"

text \<open>
  The \<open>try\<close> block of \<open>processSingleQuestion\<close>, lines 100 to 195: the result or the
  value thrown, and the calls made. The prompts, and with them the custom
  instructions, reach only the model service, whose answers are the script.
\<close>

definition processQuestionBody ::
  "llm_script \<Rightarrow> ParsedNotes \<Rightarrow> Question \<Rightarrow> (thrown + Result) \<times> logged_call list" where
  "processQuestionBody script notesData questionObj =
     (case callApiWithRetry_default (probeCall script) of
        (Inl error, n, waits) \<Rightarrow> (Inl error, [(GenerateContent liteModel False, n)])
      | (Inr webSearchCheckResponse, n, waits) \<Rightarrow>
          (case response_text webSearchCheckResponse of
             None \<Rightarrow> (Inl (typeError ''trim''), [(GenerateContent liteModel False, n)])
           | Some probeText \<Rightarrow>
               (case callApiWithRetry_default (synthesisCall script) of
                  (Inl error, m, waits') \<Rightarrow>
                    (Inl error,
                     [(GenerateContent liteModel False, n),
                      (GenerateContent proModel (needsWebSearch probeText), m)])
                | (Inr textResponse, m, waits') \<Rightarrow>
                    (case response_text textResponse of
                       None \<Rightarrow>
                         (Inl (typeError ''split''),
                          [(GenerateContent liteModel False, n),
                           (GenerateContent proModel (needsWebSearch probeText), m)])
                     | Some fullText \<Rightarrow>
                         (let parsed = parseAiResponse fullText;
                              resolved = resolveImage (images notesData) (imageCall script)
                                           (snd parsed)
                          in (Inr \<lparr>question = q_text questionObj, marks = q_marks questionObj,
                                   answer = fst parsed, imageUrl = fst resolved,
                                   sources = extractSources textResponse\<rparr>,
                              [(GenerateContent liteModel False, n),
                               (GenerateContent proModel (needsWebSearch probeText), m)]
                              @ snd resolved))))))"

text \<open>Lines 199 to 202: the answer text of a question that failed.\<close>

definition genericFailureMessage :: string where
  "genericFailureMessage =
     ''Sorry, an error occurred while generating the answer for this question. Please try again.''"

definition rateLimitMessage :: string where
  "rateLimitMessage =
     ''Could not generate an answer due to API rate limits. Please try again later or process fewer questions at once.''"

definition fallbackMessage :: "thrown \<Rightarrow> string" where
  "fallbackMessage error =
     (case error of
        JsError m c \<Rightarrow>
          if js_includes m ''RESOURCE_EXHAUSTED'' \<or> js_includes m ''rate limit''
          then rateLimitMessage else genericFailureMessage
      | NonError m \<Rightarrow> genericFailureMessage)"

text \<open>\<open>processSingleQuestion\<close>, lines 98 to 209: the \<open>catch\<close> of line 197 turns every
  value thrown in the \<open>try\<close> block into a result. The function never rejects.\<close>

definition processSingleQuestion ::
  "llm_script \<Rightarrow> ParsedNotes \<Rightarrow> Question \<Rightarrow> Result \<times> logged_call list" where
  "processSingleQuestion script notesData questionObj =
     (case processQuestionBody script notesData questionObj of
        (Inr result, calls) \<Rightarrow> (result, calls)
      | (Inl error, calls) \<Rightarrow>
          (\<lparr>question = q_text questionObj, marks = q_marks questionObj,
            answer = fallbackMessage error, imageUrl = None, sources = []\<rparr>, calls))"

section \<open>The JavaScript \<open>Map\<close>\<close>

text \<open>
  A \<open>Map\<close> keeps its entries in the order in which their keys were first set;
  setting a key that is present replaces its value in place.
\<close>

fun map_set :: "('k \<times> 'v) list \<Rightarrow> 'k \<Rightarrow> 'v \<Rightarrow> ('k \<times> 'v) list" where
  "map_set [] k v = [(k, v)]"
| "map_set ((k', v') # m) k v = (if k' = k then (k, v) # m else (k', v') # map_set m k v)"

definition map_get :: "('k \<times> 'v) list \<Rightarrow> 'k \<Rightarrow> 'v option" where
  "map_get m k = map_of m k"

definition map_values :: "('k \<times> 'v) list \<Rightarrow> 'v list" where
  "map_values m = map snd m"

definition map_from_entries :: "('k \<times> 'v) list \<Rightarrow> ('k \<times> 'v) list" where
  "map_from_entries entries = foldl (\<lambda>m (k, v). map_set m k v) [] entries"

section \<open>The answer pipeline\<close>

text \<open>
  \<open>generateAnswers\<close>, lines 213 to 250. JavaScript runs a worker without interruption
  from one \<open>await\<close> to the next, and the only \<open>await\<close> of the worker loop is the one
  of line 230, on \<open>processSingleQuestion\<close>, which reads and writes nothing the workers
  share. So a run is a sequence of resumptions: one worker gets the result of its
  question, stores it (line 231), counts and reports it (lines 240 and 241), tests
  the queue (line 225) and either returns or takes the next question (line 226)
  and waits again. The order in which the workers are resumed is not determined
  by the program: it is the parameter \<open>schedule\<close>.

  The state holds the queue, the questions in flight (one for each worker that has
  not returned), the map of the results, the counter, and the two observations:
  the calls of \<open>onProgress\<close> and the calls to the model service (those of a question
  are logged when the question completes). Every queued question carries its
  position in the list of the caller, which selects what the model service answers
  for it. The \<open>catch\<close> of line 232 is never entered, since \<open>processSingleQuestion\<close> never
  rejects; \<open>onProgress\<close> is taken not to throw.
\<close>

record pipeline_state =
  questionQueue :: "(nat \<times> Question) list"
  inFlight :: "(nat \<times> Question) list"
  resultsMap :: "(string \<times> Result) list"
  completedCount :: nat
  progressLog :: "(nat \<times> nat) list"
  callLog :: "logged_call list"

text \<open>The resumption of the worker in position \<open>w\<close> of the questions in flight.\<close>

definition worker_resume ::
  "(nat \<Rightarrow> llm_script) \<Rightarrow> ParsedNotes \<Rightarrow> nat \<Rightarrow> nat \<Rightarrow> pipeline_state \<Rightarrow> pipeline_state" where
  "worker_resume backend notesData totalQuestions w st =
     (let (k, question) = inFlight st ! w;
          (result, calls) = processSingleQuestion (backend k) notesData question;
          st' = st\<lparr>resultsMap := map_set (resultsMap st) (q_text question) result,
                   completedCount := Suc (completedCount st),
                   progressLog := progressLog st @ [(Suc (completedCount st), totalQuestions)],
                   callLog := callLog st @ calls\<rparr>
      in case questionQueue st' of
           [] \<Rightarrow> st'\<lparr>inFlight := take w (inFlight st) @ drop (Suc w) (inFlight st)\<rparr>
         | next_question # rest \<Rightarrow>
             st'\<lparr>questionQueue := rest, inFlight := (inFlight st)[w := next_question]\<rparr>)"

text \<open>The run after the workers have started, until all of them have returned. The
  worker resumed next is chosen by the schedule among those in flight.\<close>

function run_workers ::
  "(nat \<Rightarrow> nat) \<Rightarrow> (nat \<Rightarrow> llm_script) \<Rightarrow> ParsedNotes \<Rightarrow> nat \<Rightarrow> pipeline_state
   \<Rightarrow> pipeline_state" where
  "run_workers schedule backend notesData totalQuestions st =
     (if inFlight st = [] then st
      else run_workers schedule backend notesData totalQuestions
             (worker_resume backend notesData totalQuestions
                (schedule (completedCount st) mod length (inFlight st)) st))"
  by pat_completeness auto
termination
proof (relation "measure (\<lambda>(schedule, backend, notesData, totalQuestions, st).
         length (questionQueue st) + length (inFlight st))")
  show "wf (measure (\<lambda>(schedule, backend, notesData, totalQuestions, st).
         length (questionQueue st) + length (inFlight st)))"
    by simp
next
  fix schedule :: "nat \<Rightarrow> nat" and backend :: "nat \<Rightarrow> llm_script"
    and notesData :: ParsedNotes and totalQuestions :: nat and st :: pipeline_state
  assume busy: "inFlight st \<noteq> []"
  define w where "w = schedule (completedCount st) mod length (inFlight st)"
  have w: "w < length (inFlight st)"
    using busy by (simp add: w_def)
  have "length (questionQueue (worker_resume backend notesData totalQuestions w st))
          + length (inFlight (worker_resume backend notesData totalQuestions w st))
        < length (questionQueue st) + length (inFlight st)"
    using w by (auto simp: worker_resume_def Let_def split: prod.splits list.splits)
  then show "((schedule, backend, notesData, totalQuestions,
               worker_resume backend notesData totalQuestions
                 (schedule (completedCount st) mod length (inFlight st)) st),
              (schedule, backend, notesData, totalQuestions, st))
             \<in> measure (\<lambda>(schedule, backend, notesData, totalQuestions, st).
                  length (questionQueue st) + length (inFlight st))"
    by (simp add: w_def)
qed

declare run_workers.simps [simp del]

text \<open>
  The run with a pool of \<open>poolSize\<close> workers. Line 246 starts the workers one after
  the other; each runs up to its first \<open>await\<close>, so it takes the question at the
  head of the queue, or returns at once when the queue is empty. The run returns
  the list of line 249, where an entry is \<open>None\<close> when the map has no result for the
  text of the question (\<open>undefined\<close> in JavaScript), with the two observations.
\<close>

record pipeline_run =
  returned :: "Result option list"
  progressCalls :: "(nat \<times> nat) list"
  apiCalls :: "logged_call list"

definition initial_state :: "nat \<Rightarrow> Question list \<Rightarrow> pipeline_state" where
  "initial_state poolSize questions =
     \<lparr>questionQueue = drop poolSize (enumerate 0 questions),
      inFlight = take poolSize (enumerate 0 questions),
      resultsMap = [], completedCount = 0, progressLog = [], callLog = []\<rparr>"

definition generateAnswers_pool ::
  "nat \<Rightarrow> (nat \<Rightarrow> nat) \<Rightarrow> (nat \<Rightarrow> llm_script) \<Rightarrow> ParsedNotes \<Rightarrow> Question list
   \<Rightarrow> pipeline_run" where
  "generateAnswers_pool poolSize schedule backend notesData questions =
     (let totalQuestions = length questions;
          final = run_workers schedule backend notesData totalQuestions
                    (initial_state poolSize questions)
      in \<lparr>returned = map (\<lambda>q. map_get (resultsMap final) (q_text q)) questions,
          progressCalls = progressLog final,
          apiCalls = callLog final\<rparr>)"

definition CONCURRENCY_LIMIT :: nat where
  "CONCURRENCY_LIMIT = 2"

definition generateAnswers ::
  "(nat \<Rightarrow> nat) \<Rightarrow> (nat \<Rightarrow> llm_script) \<Rightarrow> ParsedNotes \<Rightarrow> Question list \<Rightarrow> pipeline_run" where
  "generateAnswers = generateAnswers_pool CONCURRENCY_LIMIT"

section \<open>Normalizing a PDF document\<close>

text \<open>
  \<open>parsePdf\<close>, lines 73 to 136 of \<open>fileParser.ts\<close>, on a document that pdf.js opens. A
  page is what pdf.js and the canvas deliver for it: the strings of its text items;
  its operator list, where an operator that paints an image carries what becomes of
  the image object (no image data, the base64 payload that \<open>imageDataToBase64\<close>
  returns, which is empty without a canvas context, or a failure, which line 101
  logs); and what rendering the page at a given scale gives (no canvas context, an
  exception, or the base64 payload of the JPEG, empty when the data URL has none).
\<close>

datatype image_object = NoImageData | Encoded string | ImageFailed

datatype page_op = PaintImageXObject image_object | OtherOp

datatype render_outcome = NoContext | RenderFailed | Rendered string

record pdf_page =
  textItems :: "string list"
  fnArray :: "page_op list"
  renderAt :: "rat \<Rightarrow> render_outcome"

text \<open>Line 85.\<close>

definition pageText :: "pdf_page \<Rightarrow> string" where
  "pageText page = js_join '' '' (textItems page)"

text \<open>Lines 89 to 105: the embedded images of a page, in the order of its operators.\<close>

definition embeddedImages :: "pdf_page \<Rightarrow> ImagePart list" where
  "embeddedImages page =
     concat (map (\<lambda>op. case op of
                          PaintImageXObject (Encoded d) \<Rightarrow>
                            if d \<noteq> [] then [\<lparr>data = d, mimeType = ''image/jpeg''\<rparr>] else []
                        | _ \<Rightarrow> [])
                 (fnArray page))"

text \<open>Lines 109 to 128: the fallback for a page with little text.\<close>

definition SCAN_THRESHOLD :: nat where
  "SCAN_THRESHOLD = 100"

definition RENDER_SCALE :: rat where
  "RENDER_SCALE = 3 / 2"

definition renderedImages :: "pdf_page \<Rightarrow> ImagePart list" where
  "renderedImages page =
     (if length (js_trim (pageText page)) < SCAN_THRESHOLD then
        (case renderAt page RENDER_SCALE of
           Rendered base64Data \<Rightarrow>
             if base64Data \<noteq> [] then [\<lparr>data = base64Data, mimeType = ''image/jpeg''\<rparr>] else []
         | _ \<Rightarrow> [])
      else [])"

text \<open>The state of \<open>images\<close> and of \<open>fullText\<close> when the loop over the pages ends.\<close>

definition collectImages :: "pdf_page list \<Rightarrow> ImagePart list" where
  "collectImages pages = concat (map (\<lambda>page. embeddedImages page @ renderedImages page) pages)"

definition fullText :: "pdf_page list \<Rightarrow> string" where
  "fullText pages = concat (map (\<lambda>page. pageText page @ [CHR 0x0A]) pages)"

text \<open>Line 133: the key of an image and the de-duplication through a \<open>Map\<close>.\<close>

definition imageKey :: "ImagePart \<Rightarrow> string" where
  "imageKey img = take 100 (data img)"

definition uniqueImages :: "ImagePart list \<Rightarrow> ImagePart list" where
  "uniqueImages imgs = map_values (map_from_entries (map (\<lambda>img. (imageKey img, img)) imgs))"

definition parsePdf :: "pdf_page list \<Rightarrow> ParsedNotes" where
  "parsePdf pages = \<lparr>notes_text = fullText pages, images = uniqueImages (collectImages pages)\<rparr>"

section \<open>Properties of the string functions\<close>

lemma js_startsWith_append: "js_startsWith (p @ s) p"
  by (induction p) auto

lemma js_split_no_sep: "sep \<notin> set s \<Longrightarrow> js_split sep s = [s]"
proof -
  assume "sep \<notin> set s"
  then have "\<forall>c\<in>set s. c \<noteq> sep" by auto
  then have parts: "dropWhile (\<lambda>c. c \<noteq> sep) s = []" "takeWhile (\<lambda>c. c \<noteq> sep) s = s"
    by simp_all
  show ?thesis
    by (subst js_split.simps) (simp only: parts list.case)
qed

lemma js_split_line: "sep \<notin> set l \<Longrightarrow> js_split sep (l @ sep # rest) = l # js_split sep rest"
proof -
  assume "sep \<notin> set l"
  then have l: "\<And>c. c \<in> set l \<Longrightarrow> c \<noteq> sep" by auto
  have parts: "dropWhile (\<lambda>c. c \<noteq> sep) (l @ sep # rest) = sep # rest"
    "takeWhile (\<lambda>c. c \<noteq> sep) (l @ sep # rest) = l"
    using l by (simp_all add: dropWhile_append2 takeWhile_append2)
  show ?thesis
    by (subst js_split.simps) (simp only: parts list.case)
qed

lemma js_split_join:
  "ls \<noteq> [] \<Longrightarrow> \<forall>l\<in>set ls. sep \<notin> set l \<Longrightarrow> js_split sep (js_join [sep] ls) = ls"
proof (induction "[sep]" ls rule: js_join.induct)
  case 1
  then show ?case by simp
next
  case (2 l)
  then show ?case by (simp add: js_split_no_sep)
next
  case (3 l l' ls)
  then show ?case by (simp add: js_split_line)
qed

lemma js_toString_nonempty: "js_toString n \<noteq> []"
  by (subst js_toString.simps) simp

lemma js_toString_digits: "c \<in> set (js_toString n) \<Longrightarrow> isDigit c"
proof (induction n arbitrary: c rule: js_toString.induct)
  case (1 n)
  show ?case
  proof (cases "n < 10")
    case True
    with "1.prems" have "c = char_of (48 + n)"
      by (subst (asm) js_toString.simps) simp
    with True show ?thesis by (simp add: isDigit_def)
  next
    case False
    with "1.prems" have "c \<in> set (js_toString (n div 10)) \<or> c = char_of (48 + n mod 10)"
      by (subst (asm) js_toString.simps) auto
    then show ?thesis
    proof
      assume "c \<in> set (js_toString (n div 10))"
      with False show ?thesis by (rule "1.IH")
    next
      assume "c = char_of (48 + n mod 10)"
      moreover have "n mod 10 < 10" by simp
      ultimately show ?thesis by (simp add: isDigit_def)
    qed
  qed
qed

lemma js_parseInt_snoc:
  "js_parseInt (ds @ [c]) = 10 * js_parseInt ds + ((of_char c :: nat) - 48)"
  by (simp add: js_parseInt_def)

lemma js_parseInt_toString: "js_parseInt (js_toString n) = n"
proof (induction n rule: js_toString.induct)
  case (1 n)
  show ?case
  proof (cases "n < 10")
    case True
    then have "js_toString n = [char_of (48 + n)]"
      by (subst js_toString.simps) simp
    with True show ?thesis by (simp add: js_parseInt_def)
  next
    case False
    then have "js_toString n = js_toString (n div 10) @ [char_of (48 + n mod 10)]"
      by (subst js_toString.simps) simp
    moreover have "js_parseInt (js_toString (n div 10)) = n div 10"
      using False by (rule "1.IH")
    moreover have "(48 + n mod 10) mod 256 = 48 + n mod 10"
      by (simp add: mod_less)
    ultimately show ?thesis
      by (simp add: js_parseInt_snoc)
  qed
qed

lemma matchImageAt_label:
  assumes "ds \<noteq> []" and "\<And>c. c \<in> set ds \<Longrightarrow> isDigit c"
  shows "matchImageAt (''[Image '' @ ds @ '']'' @ rest) = Some ds"
proof -
  have "takeWhile isDigit (ds @ '']'' @ rest) = ds"
    using assms(2) by (simp add: takeWhile_append2 isDigit_def)
  moreover have "dropWhile isDigit (ds @ '']'' @ rest) = '']'' @ rest"
    using assms(2) by (simp add: dropWhile_append2 isDigit_def)
  ultimately show ?thesis
    using assms(1) by (simp add: matchImageAt_def)
qed

lemma matchImage_skip: "c \<noteq> CHR ''['' \<Longrightarrow> matchImage (c # s) = matchImage s"
  by (simp add: matchImageAt_def)

lemma matchImage_directive:
  assumes "ds \<noteq> []" and "\<And>c. c \<in> set ds \<Longrightarrow> isDigit c"
  shows "matchImage (''USE_IMAGE: '' @ ''[Image '' @ ds @ '']'') = Some ds"
proof -
  have "matchImage (''USE_IMAGE: '' @ ''[Image '' @ ds @ '']'')
        = matchImage (''[Image '' @ ds @ '']'' @ [])"
    by (simp add: matchImage_skip del: matchImage.simps)
  also have "\<dots> = Some ds"
    using matchImageAt_label [OF assms, of "[]"] by simp
  finally show ?thesis .
qed

section \<open>Properties of the retry wrapper\<close>

lemma retry_loop_resolved:
  "apiCall calls = Resolved v \<Longrightarrow>
   retry_loop apiCall maxRetries initialDelay retries calls waits = (Inr v, Suc calls, waits)"
  by (subst retry_loop.simps) simp

lemma retry_loop_other_error:
  "apiCall calls = Rejected e \<Longrightarrow> \<not> isRateLimitError e \<Longrightarrow>
   retry_loop apiCall maxRetries initialDelay retries calls waits = (Inl e, Suc calls, waits)"
  by (subst retry_loop.simps) simp

lemma retry_loop_give_up:
  "apiCall calls = Rejected e \<Longrightarrow> isRateLimitError e \<Longrightarrow> maxRetries \<le> retries \<Longrightarrow>
   retry_loop apiCall maxRetries initialDelay retries calls waits
     = (Inl (JsError ''API rate limit exceeded after multiple retries.'' None), Suc calls, waits)"
  by (subst retry_loop.simps) simp

lemma retry_loop_again:
  "apiCall calls = Rejected e \<Longrightarrow> isRateLimitError e \<Longrightarrow> retries < maxRetries \<Longrightarrow>
   retry_loop apiCall maxRetries initialDelay retries calls waits
     = retry_loop apiCall maxRetries initialDelay (Suc retries) (Suc calls)
         (waits @ [initialDelay * 2 ^ retries])"
  by (subst retry_loop.simps) simp

lemma retry_loop_success:
  "\<lbrakk>\<forall>i<K. \<exists>e. apiCall (calls + i) = Rejected e \<and> isRateLimitError e;
    apiCall (calls + K) = Resolved v; retries + K \<le> maxRetries\<rbrakk>
   \<Longrightarrow> retry_loop apiCall maxRetries initialDelay retries calls waits
       = (Inr v, Suc (calls + K), waits @ map (\<lambda>r. initialDelay * 2 ^ r) [retries..<retries + K])"
proof (induction K arbitrary: retries calls waits)
  case 0
  then show ?case by (simp add: retry_loop_resolved)
next
  case (Suc K)
  from Suc.prems(1) obtain e where e: "apiCall calls = Rejected e" "isRateLimitError e"
    by force
  have later: "\<forall>i<K. \<exists>e. apiCall (Suc calls + i) = Rejected e \<and> isRateLimitError e"
    using Suc.prems(1) by (metis Suc_less_eq add_Suc_shift)
  have "retry_loop apiCall maxRetries initialDelay retries calls waits
        = retry_loop apiCall maxRetries initialDelay (Suc retries) (Suc calls)
            (waits @ [initialDelay * 2 ^ retries])"
    using e Suc.prems(3) by (intro retry_loop_again) simp_all
  also have "\<dots> = (Inr v, Suc (Suc calls + K),
           (waits @ [initialDelay * 2 ^ retries])
             @ map (\<lambda>r. initialDelay * 2 ^ r) [Suc retries..<Suc retries + K])"
    using Suc.prems(2,3) by (intro Suc.IH [OF later]) simp_all
  also have "\<dots> = (Inr v, Suc (calls + Suc K),
           waits @ map (\<lambda>r. initialDelay * 2 ^ r) [retries..<retries + Suc K])"
    by (simp add: upt_conv_Cons)
  finally show ?case .
qed

lemma retry_loop_exhausted:
  "\<lbrakk>\<forall>i\<le>K. \<exists>e. apiCall (calls + i) = Rejected e \<and> isRateLimitError e;
    retries + K = maxRetries\<rbrakk>
   \<Longrightarrow> retry_loop apiCall maxRetries initialDelay retries calls waits
       = (Inl (JsError ''API rate limit exceeded after multiple retries.'' None),
          Suc (calls + K), waits @ map (\<lambda>r. initialDelay * 2 ^ r) [retries..<retries + K])"
proof (induction K arbitrary: retries calls waits)
  case 0
  then obtain e where e: "apiCall calls = Rejected e" "isRateLimitError e"
    by force
  with 0 show ?case by (simp add: retry_loop_give_up)
next
  case (Suc K)
  from Suc.prems(1) obtain e where e: "apiCall calls = Rejected e" "isRateLimitError e"
    by force
  have later: "\<forall>i\<le>K. \<exists>e. apiCall (Suc calls + i) = Rejected e \<and> isRateLimitError e"
    using Suc.prems(1) by (metis Suc_le_mono add_Suc_shift)
  have "retry_loop apiCall maxRetries initialDelay retries calls waits
        = retry_loop apiCall maxRetries initialDelay (Suc retries) (Suc calls)
            (waits @ [initialDelay * 2 ^ retries])"
    using e Suc.prems(2) by (intro retry_loop_again) simp_all
  also have "\<dots> = (Inl (JsError ''API rate limit exceeded after multiple retries.'' None),
           Suc (Suc calls + K),
           (waits @ [initialDelay * 2 ^ retries])
             @ map (\<lambda>r. initialDelay * 2 ^ r) [Suc retries..<Suc retries + K])"
    using Suc.prems(2) by (intro Suc.IH [OF later]) simp_all
  also have "\<dots> = (Inl (JsError ''API rate limit exceeded after multiple retries.'' None),
           Suc (calls + Suc K),
           waits @ map (\<lambda>r. initialDelay * 2 ^ r) [retries..<retries + Suc K])"
    by (simp add: upt_conv_Cons)
  finally show ?case .
qed

lemma isRateLimitError_429: "isRateLimitError (JsError ''429 Too Many Requests'' None)"
  by (simp add: isRateLimitError_def)

lemma not_isRateLimitError_500: "\<not> isRateLimitError (JsError ''500 Internal Server Error'' None)"
  by (simp add: isRateLimitError_def)

text \<open>
  C9. A call whose first invocation fails with an error that carries no rate-limit
  signal is invoked exactly once, and \<open>callApiWithRetry\<close> fails with that same error,
  without a retry and without a wait.
\<close>

theorem callApiWithRetry_other_error_once:
  assumes "apiCall 0 = Rejected error" and "\<not> isRateLimitError error"
  shows "callApiWithRetry apiCall maxRetries initialDelay = (Inl error, 1, [])"
  using assms by (simp add: callApiWithRetry_def retry_loop_other_error)

theorem callApiWithRetry_other_error_once_witness:
  "callApiWithRetry (\<lambda>n. Rejected (JsError ''500 Internal Server Error'' None) :: nat outcome)
     3 1000
   = (Inl (JsError ''500 Internal Server Error'' None), 1, [])"
  by (rule callApiWithRetry_other_error_once [OF refl not_isRateLimitError_500])

text \<open>
  C3, as amended. A call that fails with a rate-limit signal exactly \<open>K\<close> times, with
  \<open>K\<close> at most the maximum, and then succeeds: \<open>callApiWithRetry\<close> returns the value
  after \<open>K + 1\<close> invocations and \<open>K\<close> waits. A call that fails with a rate-limit signal
  on each of its first \<open>maxRetries + 1\<close> invocations: \<open>callApiWithRetry\<close> fails after
  exactly \<open>maxRetries + 1\<close> invocations, with a new error whose message is fixed and
  which carries no cause.
\<close>

theorem callApiWithRetry_rate_limit:
  "(K \<le> maxRetries \<and> (\<forall>i<K. \<exists>e. apiCall i = Rejected e \<and> isRateLimitError e)
      \<and> apiCall K = Resolved v
    \<longrightarrow> callApiWithRetry apiCall maxRetries initialDelay
          = (Inr v, K + 1, map (\<lambda>r. initialDelay * 2 ^ r) [0..<K]))
   \<and> ((\<forall>i\<le>maxRetries. \<exists>e. apiCall i = Rejected e \<and> isRateLimitError e)
    \<longrightarrow> callApiWithRetry apiCall maxRetries initialDelay
          = (Inl (JsError ''API rate limit exceeded after multiple retries.'' None),
             maxRetries + 1, map (\<lambda>r. initialDelay * 2 ^ r) [0..<maxRetries])
        \<and> (\<forall>c. \<not> wraps (JsError ''API rate limit exceeded after multiple retries.'' None) c))"
  using retry_loop_success [of K apiCall 0 v 0 maxRetries initialDelay "[]"]
        retry_loop_exhausted [of maxRetries apiCall 0 0 maxRetries initialDelay "[]"]
  by (simp add: callApiWithRetry_def wraps_def)

theorem callApiWithRetry_rate_limit_witness:
  "callApiWithRetry
     (\<lambda>n. if n < 2 then Rejected (JsError ''429 Too Many Requests'' None) else Resolved (7 :: nat))
     3 1000
   = (Inr 7, 3, [1000, 2000])
   \<and> callApiWithRetry (\<lambda>n. Rejected (JsError ''429 Too Many Requests'' None) :: nat outcome)
       3 1000
     = (Inl (JsError ''API rate limit exceeded after multiple retries.'' None), 4,
        [1000, 2000, 4000])"
proof
  let ?once = "\<lambda>n. if n < 2 then Rejected (JsError ''429 Too Many Requests'' None)
                   else Resolved (7 :: nat)"
  have "callApiWithRetry ?once 3 1000 = (Inr 7, 2 + 1, map (\<lambda>r. 1000 * 2 ^ r) [0..<2])"
    using callApiWithRetry_rate_limit [of 2 3 ?once 7 1000] isRateLimitError_429
    by simp
  then show "callApiWithRetry ?once 3 1000 = (Inr 7, 3, [1000, 2000])"
    by (simp add: upt_conv_Cons)
next
  let ?never = "\<lambda>n. Rejected (JsError ''429 Too Many Requests'' None) :: nat outcome"
  have "callApiWithRetry ?never 3 1000
        = (Inl (JsError ''API rate limit exceeded after multiple retries.'' None), 3 + 1,
           map (\<lambda>r. 1000 * 2 ^ r) [0..<3])"
    using callApiWithRetry_rate_limit [of 0 3 ?never 0 1000] isRateLimitError_429
    by simp
  then show "callApiWithRetry ?never 3 1000
        = (Inl (JsError ''API rate limit exceeded after multiple retries.'' None), 4,
           [1000, 2000, 4000])"
    by (simp add: upt_conv_Cons)
qed

theorem callApiWithRetry_error_wraps_cause_counterexample:
  "callApiWithRetry (\<lambda>n. Rejected (JsError ''429 Too Many Requests'' None) :: nat outcome)
     3 1000
   = (Inl (JsError ''API rate limit exceeded after multiple retries.'' None), 4,
      [1000, 2000, 4000])
   \<and> \<not> wraps (JsError ''API rate limit exceeded after multiple retries.'' None)
             (JsError ''429 Too Many Requests'' None)"
  by (simp add: callApiWithRetry_def isRateLimitError_def wraps_def retry_loop_again
      retry_loop_give_up)

section \<open>Properties of the \<open>Map\<close>\<close>

lemma map_set_keys: "fst ` set (map_set m k v) = insert k (fst ` set m)"
proof (induction m)
  case Nil
  then show ?case by simp
next
  case (Cons p m)
  obtain k' v' where p: "p = (k', v')" by (cases p)
  show ?case
  proof (cases "k' = k")
    case True
    then show ?thesis by (simp add: p)
  next
    case False
    then show ?thesis by (simp add: p Cons.IH insert_commute)
  qed
qed

lemma map_set_subset: "set (map_set m k v) \<subseteq> insert (k, v) (set m)"
proof (induction m)
  case Nil
  then show ?case by simp
next
  case (Cons p m)
  then show ?case by (cases p) auto
qed

lemma map_set_distinct: "distinct (map fst m) \<Longrightarrow> distinct (map fst (map_set m k v))"
proof (induction m)
  case Nil
  then show ?case by simp
next
  case (Cons p m)
  obtain k' v' where p: "p = (k', v')" by (cases p)
  have "k' \<notin> fst ` set (map_set m k v)" if "k' \<noteq> k"
    using that Cons.prems by (simp add: map_set_keys p)
  with Cons show ?case by (auto simp: p)
qed

lemma map_of_map_set: "map_of (map_set m k v) = (map_of m)(k \<mapsto> v)"
  by (induction m) auto

lemma foldl_map_set_keys:
  "fst ` set (foldl (\<lambda>m (k, v). map_set m k v) m es) = fst ` set m \<union> fst ` set es"
proof (induction es arbitrary: m)
  case Nil
  then show ?case by simp
next
  case (Cons e es)
  obtain k v where e: "e = (k, v)" by (cases e)
  have "fst ` set (foldl (\<lambda>m (k, v). map_set m k v) (map_set m k v) es)
          = fst ` set (map_set m k v) \<union> fst ` set es"
    by (rule Cons.IH)
  then show ?case
    by (simp add: e map_set_keys Un_commute insert_commute Un_left_commute)
qed

lemma foldl_map_set_subset:
  "set (foldl (\<lambda>m (k, v). map_set m k v) m es) \<subseteq> set m \<union> set es"
proof (induction es arbitrary: m)
  case Nil
  then show ?case by simp
next
  case (Cons e es)
  obtain k v where e: "e = (k, v)" by (cases e)
  have "set (foldl (\<lambda>m (k, v). map_set m k v) (map_set m k v) es)
          \<subseteq> set (map_set m k v) \<union> set es"
    by (rule Cons.IH)
  also have "\<dots> \<subseteq> set m \<union> set (e # es)"
    using map_set_subset [of m k v] by (auto simp: e)
  finally show ?case by (simp add: e)
qed

lemma foldl_map_set_distinct:
  "distinct (map fst m) \<Longrightarrow> distinct (map fst (foldl (\<lambda>m (k, v). map_set m k v) m es))"
  by (induction es arbitrary: m) (auto simp: map_set_distinct split: prod.splits)

lemma map_from_entries_keys: "fst ` set (map_from_entries es) = fst ` set es"
  by (simp add: map_from_entries_def foldl_map_set_keys)

lemma map_from_entries_subset: "set (map_from_entries es) \<subseteq> set es"
  using foldl_map_set_subset [of "[]" es] by (simp add: map_from_entries_def)

lemma map_from_entries_distinct: "distinct (map fst (map_from_entries es))"
  by (simp add: map_from_entries_def foldl_map_set_distinct)

section \<open>Properties of the PDF normalizer\<close>

lemma uniqueImages_keys:
  "map imageKey (uniqueImages imgs)
     = map fst (map_from_entries (map (\<lambda>img. (imageKey img, img)) imgs))"
proof -
  have "imageKey (snd e) = fst e"
    if "e \<in> set (map_from_entries (map (\<lambda>img. (imageKey img, img)) imgs))" for e
    using that map_from_entries_subset [of "map (\<lambda>img. (imageKey img, img)) imgs"] by auto
  then show ?thesis
    by (simp add: uniqueImages_def map_values_def)
qed

lemma uniqueImages_distinct: "distinct (map imageKey (uniqueImages imgs))"
  by (simp add: uniqueImages_keys map_from_entries_distinct)

lemma uniqueImages_key_set: "imageKey ` set (uniqueImages imgs) = imageKey ` set imgs"
proof -
  have "imageKey ` set (uniqueImages imgs) = set (map imageKey (uniqueImages imgs))"
    by simp
  also have "\<dots> = fst ` set (map_from_entries (map (\<lambda>img. (imageKey img, img)) imgs))"
    by (simp only: uniqueImages_keys set_map)
  also have "\<dots> = imageKey ` set imgs"
    by (simp add: map_from_entries_keys image_image)
  finally show ?thesis .
qed

lemma uniqueImages_subset: "set (uniqueImages imgs) \<subseteq> set imgs"
  using map_from_entries_subset [of "map (\<lambda>img. (imageKey img, img)) imgs"]
  by (auto simp: uniqueImages_def map_values_def)

lemma distinct_keys_filter_one:
  "distinct (map f xs) \<Longrightarrow> k \<in> f ` set xs \<Longrightarrow> length (filter (\<lambda>u. f u = k) xs) = 1"
proof (induction xs)
  case Nil
  then show ?case by simp
next
  case (Cons x xs)
  show ?case
  proof (cases "f x = k")
    case True
    then have "k \<notin> f ` set xs"
      using Cons.prems(1) by auto
    then have "filter (\<lambda>u. f u = k) xs = []"
      by (auto simp: filter_empty_conv)
    with True show ?thesis by simp
  next
    case False
    then have "k \<in> f ` set xs"
      using Cons.prems(2) by auto
    with Cons False show ?thesis by simp
  qed
qed

lemma uniqueImages_one_per_key:
  assumes "img \<in> set imgs"
  shows "length (filter (\<lambda>u. imageKey u = imageKey img) (uniqueImages imgs)) = 1"
proof -
  have "imageKey img \<in> imageKey ` set (uniqueImages imgs)"
    using assms by (simp add: uniqueImages_key_set)
  then show ?thesis
    by (rule distinct_keys_filter_one [OF uniqueImages_distinct])
qed


lemma length_js_trim_le: "length (js_trim s) \<le> length s"
proof -
  have "length (js_trim s) \<le> length (dropWhile js_whitespace s)"
    using length_dropWhile_le [of js_whitespace "rev (dropWhile js_whitespace s)"]
    by (simp add: js_trim_def)
  also have "\<dots> \<le> length s"
    by (rule length_dropWhile_le)
  finally show ?thesis .
qed

lemma collectImages_rendered:
  assumes "page \<in> set pages" and "length (js_trim (pageText page)) < 100"
    and "renderAt page (3 / 2) = Rendered base64Data" and "base64Data \<noteq> []"
  shows "\<lparr>data = base64Data, mimeType = ''image/jpeg''\<rparr> \<in> set (collectImages pages)"
proof -
  have "renderedImages page = [\<lparr>data = base64Data, mimeType = ''image/jpeg''\<rparr>]"
    using assms(2-4) by (simp add: renderedImages_def SCAN_THRESHOLD_def RENDER_SCALE_def)
  then show ?thesis
    using assms(1) by (force simp: collectImages_def)
qed

text \<open>
  C7. Within one normalized PDF document, the collected images that share the first
  100 characters of their payload collapse to a single entry: for every collected
  image, the images of the document hold exactly one image with its 100-character
  prefix; no two images of the document share that prefix, and every image of the
  document is a collected one.
\<close>

theorem parsePdf_images_one_per_prefix:
  "(\<forall>img \<in> set (collectImages pages).
      length (filter (\<lambda>u. take 100 (data u) = take 100 (data img)) (images (parsePdf pages))) = 1)
   \<and> distinct (map (\<lambda>u. take 100 (data u)) (images (parsePdf pages)))
   \<and> set (images (parsePdf pages)) \<subseteq> set (collectImages pages)"
  using uniqueImages_one_per_key [of _ "collectImages pages"]
    uniqueImages_distinct [of "collectImages pages"]
    uniqueImages_subset [of "collectImages pages"]
  by (simp add: parsePdf_def imageKey_def [abs_def])

theorem parsePdf_images_one_per_prefix_witness:
  "length (filter (\<lambda>u. take 100 (data u) = take 100 (replicate 100 (CHR ''A'') @ ''x''))
     (images (parsePdf
        [\<lparr>textItems = [],
          fnArray = [PaintImageXObject (Encoded (replicate 100 (CHR ''A'') @ ''x''))],
          renderAt = (\<lambda>scale. Rendered (replicate 100 (CHR ''A'') @ ''y''))\<rparr>]))) = 1"
proof -
  let ?page = "\<lparr>textItems = [],
          fnArray = [PaintImageXObject (Encoded (replicate 100 (CHR ''A'') @ ''x''))],
          renderAt = (\<lambda>scale. Rendered (replicate 100 (CHR ''A'') @ ''y''))\<rparr>"
  let ?img = "\<lparr>data = replicate 100 (CHR ''A'') @ ''x'', mimeType = ''image/jpeg''\<rparr>"
  have "?img \<in> set (collectImages [?page])"
    by (simp add: collectImages_def embeddedImages_def)
  then have "length (filter (\<lambda>u. take 100 (data u) = take 100 (data ?img))
               (images (parsePdf [?page]))) = 1"
    using parsePdf_images_one_per_prefix [of "[?page]"] by blast
  then show ?thesis by simp
qed

text \<open>
  C8, as amended. For every PDF page whose extracted text is shorter than 100
  characters and whose rendering at scale 1.5 succeeds with a payload that is not
  empty, the render is added to the collected images, and the images of the document
  hold exactly one image with the 100-character prefix of the render (the render
  itself, or the collected image that replaced it in the de-duplication).
\<close>

theorem parsePdf_scan_fallback:
  assumes "page \<in> set pages" and "length (pageText page) < 100"
    and "renderAt page (3 / 2) = Rendered base64Data" and "base64Data \<noteq> []"
  shows "\<lparr>data = base64Data, mimeType = ''image/jpeg''\<rparr> \<in> set (collectImages pages)
         \<and> length (filter (\<lambda>u. take 100 (data u) = take 100 base64Data)
              (images (parsePdf pages))) = 1"
proof -
  have "length (js_trim (pageText page)) < 100"
    using length_js_trim_le [of "pageText page"] assms(2) by simp
  then have collected:
    "\<lparr>data = base64Data, mimeType = ''image/jpeg''\<rparr> \<in> set (collectImages pages)"
    using assms by (intro collectImages_rendered)
  from uniqueImages_one_per_key [OF this] show ?thesis
    using collected by (simp add: parsePdf_def imageKey_def [abs_def] imageKey_def)
qed

theorem parsePdf_scan_fallback_witness:
  "\<lparr>data = ''/9j/4AAQ'', mimeType = ''image/jpeg''\<rparr>
     \<in> set (collectImages
         [\<lparr>textItems = [''Page'', ''1''], fnArray = [], renderAt = (\<lambda>scale. Rendered ''/9j/4AAQ'')\<rparr>])
   \<and> length (filter (\<lambda>u. take 100 (data u) = take 100 ''/9j/4AAQ'')
        (images (parsePdf
          [\<lparr>textItems = [''Page'', ''1''], fnArray = [],
            renderAt = (\<lambda>scale. Rendered ''/9j/4AAQ'')\<rparr>]))) = 1"
  by (rule parsePdf_scan_fallback
        [of "\<lparr>textItems = [''Page'', ''1''], fnArray = [],
              renderAt = (\<lambda>scale. Rendered ''/9j/4AAQ'')\<rparr>"])
     (simp_all add: pageText_def)

theorem parsePdf_scan_fallback_counterexample:
  "length (pageText \<lparr>textItems = [], fnArray = [], renderAt = (\<lambda>scale. RenderFailed)\<rparr>) < 100
   \<and> images (parsePdf [\<lparr>textItems = [], fnArray = [], renderAt = (\<lambda>scale. RenderFailed)\<rparr>]) = []
   \<and> images (parsePdf
        [\<lparr>textItems = [], fnArray = [],
          renderAt = (\<lambda>scale. Rendered (replicate 100 (CHR ''A'') @ ''x''))\<rparr>,
         \<lparr>textItems = [], fnArray = [],
          renderAt = (\<lambda>scale. Rendered (replicate 100 (CHR ''A'') @ ''y''))\<rparr>])
     = [\<lparr>data = replicate 100 (CHR ''A'') @ ''y'', mimeType = ''image/jpeg''\<rparr>]"
  by (simp add: parsePdf_def uniqueImages_def map_from_entries_def map_values_def imageKey_def
      collectImages_def embeddedImages_def renderedImages_def pageText_def js_trim_def
      SCAN_THRESHOLD_def)

section \<open>Properties of the image directive\<close>

lemma parseAiResponse_lines:
  assumes "ls \<noteq> []" and "\<forall>l\<in>set ls. CHR 0x0A \<notin> set l"
  shows "parseAiResponse (js_join [CHR 0x0A] ls)
         = (js_trim (js_join [CHR 0x0A] (filter (\<lambda>l. \<not> isDirectiveLine l) ls)),
            map_option js_trim (find isDirectiveLine ls))"
  using js_split_join [OF assms] by (simp add: parseAiResponse_def)

lemma resolveImage_use_image:
  "resolveImage imgs imgCall (Some (''USE_IMAGE: [Image '' @ js_toString N @ '']''))
   = (if 1 \<le> N \<and> N \<le> length imgs then (Some (dataUri (imgs ! (N - 1))), []) else (None, []))"
proof -
  define d where "d = ''USE_IMAGE: [Image '' @ js_toString N @ '']''"
  have starts: "js_startsWith d ''USE_IMAGE:''"
    by (simp add: d_def)
  have "d = ''USE_IMAGE: '' @ ''[Image '' @ js_toString N @ '']''"
    by (simp add: d_def)
  then have found: "matchImage d = Some (js_toString N)"
    using matchImage_directive [of "js_toString N"] js_toString_nonempty [of N]
      js_toString_digits [of _ N]
    by simp
  have "resolveImage imgs imgCall (Some d)
        = (if int N - 1 \<ge> 0 \<and> int N - 1 < int (length imgs)
           then (Some (dataUri (imgs ! nat (int N - 1))), []) else (None, []))"
    by (simp add: resolveImage_def starts found js_parseInt_toString)
  also have "\<dots> = (if 1 \<le> N \<and> N \<le> length imgs
                    then (Some (dataUri (imgs ! (N - 1))), []) else (None, []))"
    by (auto simp: nat_diff_distrib')
  finally show ?thesis
    by (simp only: d_def)
qed

lemma resolveImage_offered_label:
  assumes "i < length imgs"
  shows "resolveImage imgs imgCall (Some (''USE_IMAGE: '' @ imageLabel i))
         = (Some (dataUri (imgs ! i)), [])"
proof -
  have "''USE_IMAGE: '' @ imageLabel i = ''USE_IMAGE: [Image '' @ js_toString (i + 1) @ '']''"
    by (simp add: imageLabel_def)
  then show ?thesis
    using assms resolveImage_use_image [of imgs imgCall "i + 1"] by simp
qed

lemma resolveImage_generate:
  assumes "js_trim p \<noteq> []"
  shows "resolveImage imgs imgCall (Some (''GENERATE_IMAGE_PROMPT:'' @ p))
         = ((case fst (callApiWithRetry_default imgCall) of
               Inl error \<Rightarrow> None
             | Inr imageResponse \<Rightarrow> generatedImageUrl imageResponse),
            [(GenerateImages imageModel (js_trim p),
              fst (snd (callApiWithRetry_default imgCall)))])"
proof -
  define d where "d = ''GENERATE_IMAGE_PROMPT:'' @ p"
  have no_use: "\<not> js_startsWith d ''USE_IMAGE:''"
    by (simp add: d_def)
  have starts: "js_startsWith d ''GENERATE_IMAGE_PROMPT:''"
    unfolding d_def by (rule js_startsWith_append)
  have "js_replace d ''GENERATE_IMAGE_PROMPT:'' [] = p"
    by (simp add: d_def)
  then have "resolveImage imgs imgCall (Some d)
        = ((case fst (callApiWithRetry_default imgCall) of
               Inl error \<Rightarrow> None
             | Inr imageResponse \<Rightarrow> generatedImageUrl imageResponse),
            [(GenerateImages imageModel (js_trim p),
              fst (snd (callApiWithRetry_default imgCall)))])"
    using assms
    by (cases "callApiWithRetry_default imgCall")
       (simp add: resolveImage_def no_use starts Let_def split: sum.splits)
  then show ?thesis
    by (simp only: d_def)
qed

lemma processSingleQuestion_answered:
  assumes "callApiWithRetry_default (probeCall script) = (Inr probe, n, waits)"
    and "response_text probe = Some probeText"
    and "callApiWithRetry_default (synthesisCall script) = (Inr textResponse, m, waits')"
    and "response_text textResponse = Some synthesisText"
  shows "processSingleQuestion script notesData questionObj
         = (\<lparr>question = q_text questionObj, marks = q_marks questionObj,
             answer = fst (parseAiResponse synthesisText),
             imageUrl = fst (resolveImage (images notesData) (imageCall script)
                               (snd (parseAiResponse synthesisText))),
             sources = extractSources textResponse\<rparr>,
            [(GenerateContent liteModel False, n),
             (GenerateContent proModel (needsWebSearch probeText), m)]
            @ snd (resolveImage (images notesData) (imageCall script)
                     (snd (parseAiResponse synthesisText))))"
  using assms by (simp add: processSingleQuestion_def processQuestionBody_def Let_def)

lemma js_toString_2: "js_toString 2 = ''2''"
  by code_simp

lemma js_toString_5: "js_toString 5 = ''5''"
  by code_simp


lemma find_directive_after:
  "\<forall>l\<in>set pre. \<not> isDirectiveLine l \<Longrightarrow> isDirectiveLine d
   \<Longrightarrow> find isDirectiveLine (pre @ [d] @ post) = Some d"
  by (induction pre) auto

lemma callApiWithRetry_default_resolved:
  "apiCall 0 = Resolved v \<Longrightarrow> callApiWithRetry_default apiCall = (Inr v, 1, [])"
  by (simp add: callApiWithRetry_default_def callApiWithRetry_def retry_loop_resolved)

text \<open>
  C5. A directive line, wherever it stands among the lines of the synthesis output,
  is not part of the answer, which is the other lines joined and trimmed; the first
  directive line, trimmed, is the directive. The directive \<open>USE_IMAGE: [Image N]\<close>
  with \<open>N\<close> between 1 and the number of images resolves to the data URI of image
  number \<open>N\<close> of the notes, with no call to the image model. A directive
  \<open>GENERATE_IMAGE_PROMPT:\<close> followed by a prompt makes exactly one image-generation
  call, with the trimmed prompt; the request is sent once when it is answered at once,
  and the \<open>imageUrl\<close> is then the JPEG data URI of the first generated image. Without a directive, and with \<open>N\<close> out of range,
  there is no image and no call. When the probe and the synthesis succeed, the answer
  and the \<open>imageUrl\<close> of the result are those, and the image calls are the only
  calls after the two content calls.
\<close>

theorem image_directive_parsing:
  "(isDirectiveLine d \<and> (\<forall>l\<in>set (pre @ [d] @ post). CHR 0x0A \<notin> set l)
    \<longrightarrow> fst (parseAiResponse (js_join [CHR 0x0A] (pre @ [d] @ post)))
          = js_trim (js_join [CHR 0x0A] (filter (\<lambda>l. \<not> isDirectiveLine l) (pre @ post)))
        \<and> ((\<forall>l\<in>set pre. \<not> isDirectiveLine l)
           \<longrightarrow> snd (parseAiResponse (js_join [CHR 0x0A] (pre @ [d] @ post))) = Some (js_trim d)))
   \<and> (1 \<le> N \<and> N \<le> length imgs
    \<longrightarrow> resolveImage imgs imgCall (Some (''USE_IMAGE: [Image '' @ js_toString N @ '']''))
          = (Some (dataUri (imgs ! (N - 1))), []))
   \<and> (js_trim p \<noteq> []
    \<longrightarrow> snd (resolveImage imgs imgCall (Some (''GENERATE_IMAGE_PROMPT:'' @ p)))
          = [(GenerateImages imageModel (js_trim p),
              fst (snd (callApiWithRetry_default imgCall)))])
   \<and> resolveImage imgs imgCall None = (None, [])
   \<and> (N = 0 \<or> length imgs < N
    \<longrightarrow> resolveImage imgs imgCall (Some (''USE_IMAGE: [Image '' @ js_toString N @ '']''))
          = (None, []))
   \<and> (callApiWithRetry_default (probeCall script) = (Inr probe, n, waits)
      \<and> response_text probe = Some probeText
      \<and> callApiWithRetry_default (synthesisCall script) = (Inr textResponse, m, waits')
      \<and> response_text textResponse = Some synthesisText
    \<longrightarrow> processSingleQuestion script notesData questionObj
          = (\<lparr>question = q_text questionObj, marks = q_marks questionObj,
              answer = fst (parseAiResponse synthesisText),
              imageUrl = fst (resolveImage (images notesData) (imageCall script)
                                (snd (parseAiResponse synthesisText))),
              sources = extractSources textResponse\<rparr>,
             [(GenerateContent liteModel False, n),
              (GenerateContent proModel (needsWebSearch probeText), m)]
             @ snd (resolveImage (images notesData) (imageCall script)
                      (snd (parseAiResponse synthesisText)))))
   \<and> (js_trim p \<noteq> [] \<and> imgCall 0 = Resolved imageResponse
    \<longrightarrow> resolveImage imgs imgCall (Some (''GENERATE_IMAGE_PROMPT:'' @ p))
          = (generatedImageUrl imageResponse, [(GenerateImages imageModel (js_trim p), 1)]))"
proof (intro conjI impI)
  assume lines: "isDirectiveLine d \<and> (\<forall>l\<in>set (pre @ [d] @ post). CHR 0x0A \<notin> set l)"
  then have parsed: "parseAiResponse (js_join [CHR 0x0A] (pre @ [d] @ post))
      = (js_trim (js_join [CHR 0x0A] (filter (\<lambda>l. \<not> isDirectiveLine l) (pre @ [d] @ post))),
         map_option js_trim (find isDirectiveLine (pre @ [d] @ post)))"
    by (intro parseAiResponse_lines) simp_all
  from lines show "fst (parseAiResponse (js_join [CHR 0x0A] (pre @ [d] @ post)))
      = js_trim (js_join [CHR 0x0A] (filter (\<lambda>l. \<not> isDirectiveLine l) (pre @ post)))"
    unfolding parsed by simp
  assume "\<forall>l\<in>set pre. \<not> isDirectiveLine l"
  with lines have "find isDirectiveLine (pre @ [d] @ post) = Some d"
    by (intro find_directive_after) simp_all
  then show "snd (parseAiResponse (js_join [CHR 0x0A] (pre @ [d] @ post))) = Some (js_trim d)"
    unfolding parsed by simp
next
  assume "1 \<le> N \<and> N \<le> length imgs"
  then show "resolveImage imgs imgCall (Some (''USE_IMAGE: [Image '' @ js_toString N @ '']''))
          = (Some (dataUri (imgs ! (N - 1))), [])"
    by (subst resolveImage_use_image) simp
next
  assume "js_trim p \<noteq> []"
  from resolveImage_generate [OF this, of imgs imgCall]
  show "snd (resolveImage imgs imgCall (Some (''GENERATE_IMAGE_PROMPT:'' @ p)))
          = [(GenerateImages imageModel (js_trim p),
              fst (snd (callApiWithRetry_default imgCall)))]"
    by (simp only: snd_conv)
next
  show "resolveImage imgs imgCall None = (None, [])"
    by (simp add: resolveImage_def)
next
  assume "N = 0 \<or> length imgs < N"
  then have "\<not> (1 \<le> N \<and> N \<le> length imgs)"
    by auto
  then show "resolveImage imgs imgCall (Some (''USE_IMAGE: [Image '' @ js_toString N @ '']''))
          = (None, [])"
    by (subst resolveImage_use_image) simp
next
  assume "callApiWithRetry_default (probeCall script) = (Inr probe, n, waits)
      \<and> response_text probe = Some probeText
      \<and> callApiWithRetry_default (synthesisCall script) = (Inr textResponse, m, waits')
      \<and> response_text textResponse = Some synthesisText"
  then show "processSingleQuestion script notesData questionObj
          = (\<lparr>question = q_text questionObj, marks = q_marks questionObj,
              answer = fst (parseAiResponse synthesisText),
              imageUrl = fst (resolveImage (images notesData) (imageCall script)
                                (snd (parseAiResponse synthesisText))),
              sources = extractSources textResponse\<rparr>,
             [(GenerateContent liteModel False, n),
              (GenerateContent proModel (needsWebSearch probeText), m)]
             @ snd (resolveImage (images notesData) (imageCall script)
                      (snd (parseAiResponse synthesisText))))"
    by (intro processSingleQuestion_answered
          [of script probe n waits probeText textResponse m waits' synthesisText])
       simp_all
next
  assume sent: "js_trim p \<noteq> [] \<and> imgCall 0 = Resolved imageResponse"
  then have "callApiWithRetry_default imgCall = (Inr imageResponse, 1, [])"
    by (intro callApiWithRetry_default_resolved) simp
  with sent show "resolveImage imgs imgCall (Some (''GENERATE_IMAGE_PROMPT:'' @ p))
          = (generatedImageUrl imageResponse, [(GenerateImages imageModel (js_trim p), 1)])"
    by (subst resolveImage_generate) simp_all
qed


lemma needsWebSearch_YES: "needsWebSearch ''YES'' = False"
  by code_simp

theorem image_directive_parsing_witness:
  "processSingleQuestion
     \<lparr>probeCall = (\<lambda>n. Resolved \<lparr>response_text = Some ''YES'', candidates = None\<rparr>),
      synthesisCall = (\<lambda>n. Resolved
         \<lparr>response_text = Some ''Some answer text.\<newline>USE_IMAGE: [Image 2]'',
          candidates = None\<rparr>),
      imageCall = (\<lambda>n. Rejected (NonError None))\<rparr>
     \<lparr>notes_text = ''notes'',
      images = [\<lparr>data = ''QUFB'', mimeType = ''image/png''\<rparr>,
                \<lparr>data = ''QkJC'', mimeType = ''image/png''\<rparr>,
                \<lparr>data = ''Q0ND'', mimeType = ''image/jpeg''\<rparr>]\<rparr>
     \<lparr>q_text = ''What is X?'', q_marks = None\<rparr>
   = (\<lparr>question = ''What is X?'', marks = None, answer = ''Some answer text.'',
       imageUrl = Some ''data:image/png;base64,QkJC'', sources = []\<rparr>,
      [(GenerateContent liteModel False, 1), (GenerateContent proModel False, 1)])
   \<and> resolveImage []
        (\<lambda>n. Resolved \<lparr>generatedImages = Some [GeneratedImage (Some (Image (Some ''AAAA'')))]\<rparr>)
        (Some ''GENERATE_IMAGE_PROMPT: a cat'')
     = (Some ''data:image/jpeg;base64,AAAA'', [(GenerateImages imageModel ''a cat'', 1)])
   \<and> resolveImage [\<lparr>data = ''QUFB'', mimeType = ''image/png''\<rparr>] (\<lambda>n. Rejected (NonError None))
       (Some ''USE_IMAGE: [Image 5]'')
     = (None, [])"
proof (intro conjI)
  let ?probe = "\<lparr>response_text = Some ''YES'', candidates = None\<rparr>"
  let ?synthesisText = "''Some answer text.\<newline>USE_IMAGE: [Image 2]''"
  let ?textResponse = "\<lparr>response_text = Some ?synthesisText, candidates = None\<rparr>"
  let ?script = "\<lparr>probeCall = (\<lambda>n. Resolved ?probe),
      synthesisCall = (\<lambda>n. Resolved ?textResponse),
      imageCall = (\<lambda>n. Rejected (NonError None))\<rparr>"
  let ?imgs = "[\<lparr>data = ''QUFB'', mimeType = ''image/png''\<rparr>,
                \<lparr>data = ''QkJC'', mimeType = ''image/png''\<rparr>,
                \<lparr>data = ''Q0ND'', mimeType = ''image/jpeg''\<rparr>]"
  let ?notes = "\<lparr>notes_text = ''notes'', images = ?imgs\<rparr>"
  let ?q = "\<lparr>q_text = ''What is X?'', q_marks = None\<rparr>"
  note facts = image_directive_parsing
    [where d = "''USE_IMAGE: [Image 2]''" and pre = "[''Some answer text.'']" and post = "[]"
       and N = 2 and imgs = ?imgs and imgCall = "\<lambda>n. Rejected (NonError None)"
       and script = ?script and probe = ?probe and n = 1 and waits = "[]"
       and probeText = "''YES''" and textResponse = ?textResponse and m = 1 and waits' = "[]"
       and synthesisText = ?synthesisText and notesData = ?notes and questionObj = ?q]
  have text_eq: "js_join [CHR 0x0A] ([''Some answer text.''] @ [''USE_IMAGE: [Image 2]''] @ [])
                 = ?synthesisText"
    by simp
  have answer: "fst (parseAiResponse ?synthesisText) = ''Some answer text.''"
    using facts [THEN conjunct1] unfolding text_eq
    by (simp add: isDirectiveLine_def js_trim_def js_whitespace_def)
  have directive: "snd (parseAiResponse ?synthesisText) = Some ''USE_IMAGE: [Image 2]''"
    using facts [THEN conjunct1] unfolding text_eq
    by (simp add: isDirectiveLine_def js_trim_def js_whitespace_def)
  have resolved: "resolveImage ?imgs (\<lambda>n. Rejected (NonError None))
                    (Some ''USE_IMAGE: [Image 2]'')
                  = (Some ''data:image/png;base64,QkJC'', [])"
    using facts [THEN conjunct2, THEN conjunct1]
    by (simp add: js_toString_2 dataUri_def)
  have "processSingleQuestion ?script ?notes ?q
        = (\<lparr>question = q_text ?q, marks = q_marks ?q,
            answer = fst (parseAiResponse ?synthesisText),
            imageUrl = fst (resolveImage (images ?notes) (imageCall ?script)
                              (snd (parseAiResponse ?synthesisText))),
            sources = extractSources ?textResponse\<rparr>,
           [(GenerateContent liteModel False, 1),
            (GenerateContent proModel (needsWebSearch ''YES''), 1)]
           @ snd (resolveImage (images ?notes) (imageCall ?script)
                    (snd (parseAiResponse ?synthesisText))))"
    using facts [THEN conjunct2, THEN conjunct2, THEN conjunct2, THEN conjunct2, THEN conjunct2,
            THEN conjunct1]
    by (simp add: callApiWithRetry_default_resolved)
  then show "processSingleQuestion ?script ?notes ?q
    = (\<lparr>question = ''What is X?'', marks = None, answer = ''Some answer text.'',
        imageUrl = Some ''data:image/png;base64,QkJC'', sources = []\<rparr>,
       [(GenerateContent liteModel False, 1), (GenerateContent proModel False, 1)])"
    by (simp add: answer directive resolved needsWebSearch_YES extractSources_def)
next
  let ?call = "\<lambda>n :: nat. Resolved
     \<lparr>generatedImages = Some [GeneratedImage (Some (Image (Some ''AAAA'')))]\<rparr>"
  have "js_trim '' a cat'' = ''a cat''"
    by (simp add: js_trim_def js_whitespace_def)
  then show "resolveImage [] ?call (Some ''GENERATE_IMAGE_PROMPT: a cat'')
     = (Some ''data:image/jpeg;base64,AAAA'', [(GenerateImages imageModel ''a cat'', 1)])"
    using image_directive_parsing [where p = "'' a cat''" and imgs = "[]" and imgCall = ?call
            and imageResponse = "\<lparr>generatedImages = Some
                                   [GeneratedImage (Some (Image (Some ''AAAA'')))]\<rparr>",
            THEN conjunct2, THEN conjunct2, THEN conjunct2, THEN conjunct2, THEN conjunct2,
            THEN conjunct2]
    by (simp add: generatedImageUrl_def)
next
  show "resolveImage [\<lparr>data = ''QUFB'', mimeType = ''image/png''\<rparr>]
          (\<lambda>n. Rejected (NonError None)) (Some ''USE_IMAGE: [Image 5]'')
        = (None, [])"
    using image_directive_parsing [where N = 5 and imgCall = "\<lambda>n. Rejected (NonError None)"
            and imgs = "[\<lparr>data = ''QUFB'', mimeType = ''image/png''\<rparr>]",
            THEN conjunct2, THEN conjunct2, THEN conjunct2, THEN conjunct2, THEN conjunct1]
    by (simp add: js_toString_5)
qed

section \<open>Properties of the answer pipeline\<close>

lemma run_workers_done:
  "inFlight st = [] \<Longrightarrow> run_workers schedule backend notesData totalQuestions st = st"
  by (subst run_workers.simps) simp

lemma run_workers_step:
  "inFlight st \<noteq> [] \<Longrightarrow>
   run_workers schedule backend notesData totalQuestions st
     = run_workers schedule backend notesData totalQuestions
         (worker_resume backend notesData totalQuestions
            (schedule (completedCount st) mod length (inFlight st)) st)"
  by (subst run_workers.simps) simp

lemma worker_resume_progress:
  "progressLog (worker_resume backend notesData totalQuestions w st)
     = progressLog st @ [(Suc (completedCount st), totalQuestions)]"
  by (simp add: worker_resume_def Let_def split: prod.splits list.splits)

lemma worker_resume_count:
  "completedCount (worker_resume backend notesData totalQuestions w st)
     = Suc (completedCount st)"
  by (simp add: worker_resume_def Let_def split: prod.splits list.splits)

lemma worker_resume_calls:
  "callLog (worker_resume backend notesData totalQuestions w st)
     = callLog st
       @ snd (processSingleQuestion (backend (fst (inFlight st ! w))) notesData
                (snd (inFlight st ! w)))"
  by (simp add: worker_resume_def Let_def split: prod.splits list.splits)

lemma worker_resume_results:
  "resultsMap (worker_resume backend notesData totalQuestions w st)
     = map_set (resultsMap st) (q_text (snd (inFlight st ! w)))
         (fst (processSingleQuestion (backend (fst (inFlight st ! w))) notesData
                 (snd (inFlight st ! w))))"
  by (simp add: worker_resume_def Let_def split: prod.splits list.splits)

lemma worker_resume_size:
  "w < length (inFlight st) \<Longrightarrow>
   Suc (length (questionQueue (worker_resume backend notesData totalQuestions w st))
        + length (inFlight (worker_resume backend notesData totalQuestions w st)))
     = length (questionQueue st) + length (inFlight st)"
  by (auto simp: worker_resume_def Let_def split: prod.splits list.splits)

lemma worker_resume_drained:
  assumes "w < length (inFlight st)"
  shows "inFlight (worker_resume backend notesData totalQuestions w st) = []
         \<longrightarrow> questionQueue (worker_resume backend notesData totalQuestions w st) = []"
  using assms by (auto simp: worker_resume_def Let_def split: prod.splits list.splits)

lemma run_workers_progress:
  "(inFlight st = [] \<longrightarrow> questionQueue st = []) \<Longrightarrow>
   progressLog (run_workers schedule backend notesData totalQuestions st)
     = progressLog st
       @ map (\<lambda>i. (i, totalQuestions))
           [Suc (completedCount st)..<
            Suc (completedCount st + length (questionQueue st) + length (inFlight st))]"
proof (induction schedule backend notesData totalQuestions st rule: run_workers.induct)
  case (1 schedule backend notesData totalQuestions st)
  show ?case
  proof (cases "inFlight st = []")
    case True
    with "1.prems" show ?thesis
      by (simp add: run_workers_done)
  next
    case False
    define w where "w = schedule (completedCount st) mod length (inFlight st)"
    define st' where "st' = worker_resume backend notesData totalQuestions w st"
    have w: "w < length (inFlight st)"
      using False by (simp add: w_def)
    have size: "Suc (length (questionQueue st') + length (inFlight st'))
                = length (questionQueue st) + length (inFlight st)"
      unfolding st'_def using w by (rule worker_resume_size)
    have drained: "inFlight st' = [] \<longrightarrow> questionQueue st' = []"
      unfolding st'_def using w by (rule worker_resume_drained)
    define n' where "n' = length (questionQueue st') + length (inFlight st')"
    have n: "completedCount st + length (questionQueue st) + length (inFlight st)
             = Suc (completedCount st + n')"
      using size by (simp add: n'_def)
    have "progressLog (run_workers schedule backend notesData totalQuestions st)
          = progressLog (run_workers schedule backend notesData totalQuestions st')"
      using False by (simp add: run_workers_step st'_def w_def)
    also have "\<dots> = progressLog st'
        @ map (\<lambda>i. (i, totalQuestions))
            [Suc (completedCount st')..<
             Suc (completedCount st' + length (questionQueue st') + length (inFlight st'))]"
      using "1.IH" [OF False] drained by (simp add: st'_def w_def)
    also have "\<dots> = (progressLog st @ [(Suc (completedCount st), totalQuestions)])
        @ map (\<lambda>i. (i, totalQuestions))
            [Suc (Suc (completedCount st))..<Suc (Suc (completedCount st + n'))]"
      by (simp add: st'_def worker_resume_progress worker_resume_count n'_def add.assoc
          del: upt_Suc)
    also have "\<dots> = progressLog st
        @ map (\<lambda>i. (i, totalQuestions))
            [Suc (completedCount st)..<Suc (Suc (completedCount st + n'))]"
      by (simp add: upt_conv_Cons del: upt_Suc)
    also have "\<dots> = progressLog st
        @ map (\<lambda>i. (i, totalQuestions))
            [Suc (completedCount st)..<
             Suc (completedCount st + length (questionQueue st) + length (inFlight st))]"
      by (simp only: n)
    finally show ?thesis .
  qed
qed

lemma initial_state_drained:
  "1 \<le> poolSize \<Longrightarrow>
   inFlight (initial_state poolSize questions) = []
   \<longrightarrow> questionQueue (initial_state poolSize questions) = []"
  by (cases questions) (auto simp: initial_state_def enumerate_eq_zip)

text \<open>
  C4. Across one run over \<open>N\<close> questions with a pool of at least one worker, whatever
  the order in which the workers are resumed, the progress callback is invoked
  exactly \<open>N\<close> times, with the completed values 1, 2, ..., \<open>N\<close> in this order and with
  the total \<open>N\<close> each time.
\<close>

theorem generateAnswers_progress:
  assumes "1 \<le> poolSize"
  shows "progressCalls (generateAnswers_pool poolSize schedule backend notesData questions)
         = map (\<lambda>completed. (completed, length questions)) [1..<Suc (length questions)]"
proof -
  have "length (questionQueue (initial_state poolSize questions))
          + length (inFlight (initial_state poolSize questions)) = length questions"
    by (simp add: initial_state_def)
  moreover have "completedCount (initial_state poolSize questions) = 0"
    "progressLog (initial_state poolSize questions) = []"
    by (simp_all add: initial_state_def)
  ultimately show ?thesis
    using run_workers_progress [OF initial_state_drained [OF assms, of questions],
            where schedule = schedule and backend = backend and notesData = notesData
              and totalQuestions = "length questions"]
    by (simp add: generateAnswers_pool_def Let_def del: upt_Suc)
qed

theorem generateAnswers_progress_witness:
  "progressCalls (generateAnswers (\<lambda>step. step)
     (\<lambda>k. \<lparr>probeCall = (\<lambda>n. Rejected (JsError ''503 Service Unavailable'' None)),
           synthesisCall = (\<lambda>n. Rejected (NonError None)),
           imageCall = (\<lambda>n. Rejected (NonError None))\<rparr>)
     \<lparr>notes_text = ''notes'', images = []\<rparr>
     [\<lparr>q_text = ''Q1'', q_marks = None\<rparr>, \<lparr>q_text = ''Q2'', q_marks = Some ''5 marks''\<rparr>,
      \<lparr>q_text = ''Q3'', q_marks = None\<rparr>])
   = [(1, 3), (2, 3), (3, 3)]"
proof -
  have "(1 :: nat) \<le> 2" by simp
  from generateAnswers_progress [OF this] show ?thesis
    by (simp add: generateAnswers_def CONCURRENCY_LIMIT_def upt_conv_Cons del: upt_Suc)
qed

text \<open>
  C10. For the empty list of questions, \<open>generateAnswers\<close> returns the empty list,
  never invokes the progress callback and makes no call to the model service.
\<close>

theorem generateAnswers_empty:
  "generateAnswers schedule backend notesData []
   = \<lparr>returned = [], progressCalls = [], apiCalls = []\<rparr>"
  by (simp add: generateAnswers_def generateAnswers_pool_def initial_state_def
      run_workers_done)


lemma run_workers_results_pred:
  "\<forall>script q. Q (fst (processSingleQuestion script notesData q)) \<Longrightarrow>
   \<forall>e\<in>set (resultsMap st). Q (snd e) \<Longrightarrow>
   \<forall>e\<in>set (resultsMap (run_workers schedule backend notesData totalQuestions st)). Q (snd e)"
proof (induction schedule backend notesData totalQuestions st rule: run_workers.induct)
  case (1 schedule backend notesData totalQuestions st)
  note Q = "1.prems"(1)
  show ?case
  proof (cases "inFlight st = []")
    case True
    with "1.prems"(2) show ?thesis
      by (simp add: run_workers_done)
  next
    case False
    define st' where "st' = worker_resume backend notesData totalQuestions
      (schedule (completedCount st) mod length (inFlight st)) st"
    have "\<forall>e\<in>set (resultsMap st'). Q (snd e)"
    proof
      fix e assume "e \<in> set (resultsMap st')"
      then have "e \<in> set (resultsMap st) \<or> (\<exists>script t q.
          e = (t, fst (processSingleQuestion script notesData q)))"
        using map_set_subset by (fastforce simp: st'_def worker_resume_results)
      then show "Q (snd e)"
        using "1.prems"(2) Q by auto
    qed
    then have "\<forall>e\<in>set (resultsMap (run_workers schedule backend notesData totalQuestions st')).
                 Q (snd e)"
      unfolding st'_def using Q by (intro "1.IH" [OF False])
    then show ?thesis
      using False by (simp add: run_workers_step st'_def)
  qed
qed

lemma generateAnswers_pool_results_pred:
  assumes "\<forall>script q. Q (fst (processSingleQuestion script notesData q))"
    and "Some r \<in> set (returned (generateAnswers_pool poolSize schedule backend notesData questions))"
  shows "Q r"
proof -
  define final where "final = run_workers schedule backend notesData (length questions)
    (initial_state poolSize questions)"
  have all: "\<forall>e\<in>set (resultsMap final). Q (snd e)"
    unfolding final_def using assms(1)
    by (rule run_workers_results_pred) (simp add: initial_state_def)
  from assms(2) have "Some r \<in> (\<lambda>q. map_get (resultsMap final) (q_text q)) ` set questions"
    by (simp add: generateAnswers_pool_def Let_def final_def)
  then obtain q :: Question where "Some r = map_get (resultsMap final) (q_text q)"
    by blast
  then have "map_of (resultsMap final) (q_text q) = Some r"
    by (simp add: map_get_def)
  then have "(q_text q, r) \<in> set (resultsMap final)"
    by (rule map_of_SomeD)
  with all show ?thesis by force
qed

lemma extractSources_uri: "s \<in> set (extractSources textResponse) \<Longrightarrow> uri s \<noteq> []"
  by (auto simp: extractSources_def split: option.splits list.splits)

lemma processSingleQuestion_sources:
  "s \<in> set (sources (fst (processSingleQuestion script notesData questionObj))) \<Longrightarrow> uri s \<noteq> []"
  by (auto simp: processSingleQuestion_def processQuestionBody_def Let_def
      dest: extractSources_uri split: prod.splits sum.splits option.splits)

text \<open>
  C6. No result has a source with an empty \<open>uri\<close>: the sources of a response keep
  only the grounding chunks with a web URI that is not empty, the result of a single
  question has only such sources, and so has every result that the pipeline returns,
  for every pool size and every order of the workers.
\<close>

theorem result_sources_have_uri:
  "(\<forall>s\<in>set (extractSources textResponse). uri s \<noteq> [])
   \<and> (\<forall>s\<in>set (sources (fst (processSingleQuestion script notesData questionObj))). uri s \<noteq> [])
   \<and> (\<forall>r. Some r \<in> set (returned (generateAnswers_pool poolSize schedule backend notesData
                                     questions))
          \<longrightarrow> (\<forall>s\<in>set (sources r). uri s \<noteq> []))"
proof (intro conjI allI impI ballI)
  fix s assume "s \<in> set (extractSources textResponse)"
  then show "uri s \<noteq> []" by (rule extractSources_uri)
next
  fix s assume "s \<in> set (sources (fst (processSingleQuestion script notesData questionObj)))"
  then show "uri s \<noteq> []" by (rule processSingleQuestion_sources)
next
  fix r s
  assume r: "Some r \<in> set (returned (generateAnswers_pool poolSize schedule backend notesData
                                      questions))"
    and s: "s \<in> set (sources r)"
  have "\<forall>script q. \<forall>s\<in>set (sources (fst (processSingleQuestion script notesData q))).
          uri s \<noteq> []"
    by (auto dest: processSingleQuestion_sources)
  then have "\<forall>s\<in>set (sources r). uri s \<noteq> []"
    using r by (rule generateAnswers_pool_results_pred)
  with s show "uri s \<noteq> []" by blast
qed

lemma worker_resume_items:
  assumes "w < length (inFlight st)"
  shows "\<exists>A B. inFlight st = A @ [inFlight st ! w] @ B
           \<and> (case questionQueue st of
                 [] \<Rightarrow> inFlight (worker_resume backend notesData totalQuestions w st) = A @ B
                       \<and> questionQueue (worker_resume backend notesData totalQuestions w st) = []
               | next_question # rest \<Rightarrow>
                   inFlight (worker_resume backend notesData totalQuestions w st)
                     = A @ [next_question] @ B
                   \<and> questionQueue (worker_resume backend notesData totalQuestions w st) = rest)"
proof (intro exI conjI)
  show "inFlight st = take w (inFlight st) @ [inFlight st ! w] @ drop (Suc w) (inFlight st)"
    using assms by (simp add: id_take_nth_drop [symmetric])
  show "case questionQueue st of
          [] \<Rightarrow> inFlight (worker_resume backend notesData totalQuestions w st)
                  = take w (inFlight st) @ drop (Suc w) (inFlight st)
                \<and> questionQueue (worker_resume backend notesData totalQuestions w st) = []
        | next_question # rest \<Rightarrow>
            inFlight (worker_resume backend notesData totalQuestions w st)
              = take w (inFlight st) @ [next_question] @ drop (Suc w) (inFlight st)
            \<and> questionQueue (worker_resume backend notesData totalQuestions w st) = rest"
    using assms
    by (simp add: worker_resume_def Let_def upd_conv_take_nth_drop
        split: prod.splits list.splits)
qed

lemma run_workers_results_distinct:
  "distinct (map (\<lambda>item. q_text (snd item)) (inFlight st @ questionQueue st)) \<Longrightarrow>
   (inFlight st = [] \<longrightarrow> questionQueue st = []) \<Longrightarrow>
   (\<forall>item\<in>set (inFlight st @ questionQueue st).
      map_of (resultsMap (run_workers schedule backend notesData totalQuestions st))
        (q_text (snd item))
      = Some (fst (processSingleQuestion (backend (fst item)) notesData (snd item))))
   \<and> (\<forall>t. t \<notin> (\<lambda>item. q_text (snd item)) ` set (inFlight st @ questionQueue st)
        \<longrightarrow> map_of (resultsMap (run_workers schedule backend notesData totalQuestions st)) t
            = map_of (resultsMap st) t)"
proof (induction schedule backend notesData totalQuestions st rule: run_workers.induct)
  case (1 schedule backend notesData totalQuestions st)
  show ?case
  proof (cases "inFlight st = []")
    case True
    with "1.prems" show ?thesis
      by (simp add: run_workers_done)
  next
    case False
    define w where "w = schedule (completedCount st) mod length (inFlight st)"
    define st' where "st' = worker_resume backend notesData totalQuestions w st"
    define item where "item = inFlight st ! w"
    define r where "r = fst (processSingleQuestion (backend (fst item)) notesData (snd item))"
    define final where "final = run_workers schedule backend notesData totalQuestions st'"
    have w: "w < length (inFlight st)"
      using False by (simp add: w_def)
    have final: "run_workers schedule backend notesData totalQuestions st = final"
      using False by (simp add: run_workers_step final_def st'_def w_def)
    have results': "map_of (resultsMap st') = (map_of (resultsMap st))(q_text (snd item) \<mapsto> r)"
      by (simp add: st'_def worker_resume_results map_of_map_set item_def r_def)
    from worker_resume_items [OF w, of backend notesData totalQuestions]
    obtain A B where F: "inFlight st = A @ [item] @ B"
      and next_state: "case questionQueue st of
            [] \<Rightarrow> inFlight st' = A @ B \<and> questionQueue st' = []
          | next_question # rest \<Rightarrow>
              inFlight st' = A @ [next_question] @ B \<and> questionQueue st' = rest"
      unfolding st'_def item_def by blast
    have items: "set (inFlight st @ questionQueue st)
                 = insert item (set (inFlight st' @ questionQueue st'))"
      using next_state by (auto simp: F split: list.splits)
    have distinct': "distinct (map (\<lambda>item. q_text (snd item)) (inFlight st' @ questionQueue st'))"
      using next_state "1.prems"(1) by (auto simp: F split: list.splits)
    have fresh: "q_text (snd item)
                 \<notin> (\<lambda>item. q_text (snd item)) ` set (inFlight st' @ questionQueue st')"
      using next_state "1.prems"(1) by (auto simp: F split: list.splits)
    have drained': "inFlight st' = [] \<longrightarrow> questionQueue st' = []"
      unfolding st'_def using w by (rule worker_resume_drained)
    have IH: "(\<forall>item\<in>set (inFlight st' @ questionQueue st').
        map_of (resultsMap final) (q_text (snd item))
        = Some (fst (processSingleQuestion (backend (fst item)) notesData (snd item))))
      \<and> (\<forall>t. t \<notin> (\<lambda>item. q_text (snd item)) ` set (inFlight st' @ questionQueue st')
          \<longrightarrow> map_of (resultsMap final) t = map_of (resultsMap st') t)"
      unfolding final_def st'_def w_def
      using distinct' drained' by (intro "1.IH" [OF False]) (simp_all add: st'_def w_def)
    have "map_of (resultsMap final) (q_text (snd item)) = Some r"
      using IH fresh by (simp add: results')
    then have first: "\<forall>item\<in>set (inFlight st @ questionQueue st).
        map_of (resultsMap final) (q_text (snd item))
        = Some (fst (processSingleQuestion (backend (fst item)) notesData (snd item)))"
      using IH unfolding items by (auto simp: r_def)
    have second: "\<forall>t. t \<notin> (\<lambda>item. q_text (snd item)) ` set (inFlight st @ questionQueue st)
        \<longrightarrow> map_of (resultsMap final) t = map_of (resultsMap st) t"
      using IH unfolding items by (auto simp: results')
    from first second show ?thesis
      unfolding final by blast
  qed
qed

lemma generateAnswers_pool_distinct:
  assumes "1 \<le> poolSize" and "distinct (map q_text questions)"
  shows "returned (generateAnswers_pool poolSize schedule backend notesData questions)
         = map (\<lambda>(k, q). Some (fst (processSingleQuestion (backend k) notesData q)))
             (enumerate 0 questions)"
proof -
  define final where "final = run_workers schedule backend notesData (length questions)
    (initial_state poolSize questions)"
  have items: "inFlight (initial_state poolSize questions)
               @ questionQueue (initial_state poolSize questions) = enumerate 0 questions"
    by (simp add: initial_state_def)
  have "map (\<lambda>item. q_text (snd item)) (enumerate 0 questions)
        = map q_text (map snd (enumerate 0 questions))"
    by (simp only: map_map comp_def)
  then have "map (\<lambda>item. q_text (snd item)) (enumerate 0 questions) = map q_text questions"
    by simp
  then have "distinct (map (\<lambda>item. q_text (snd item))
               (inFlight (initial_state poolSize questions)
                @ questionQueue (initial_state poolSize questions)))"
    using assms(2) by (simp only: items)
  from run_workers_results_distinct [OF this initial_state_drained [OF assms(1)],
         of schedule backend notesData "length questions"]
  have all: "\<forall>item\<in>set (enumerate 0 questions).
      map_of (resultsMap final) (q_text (snd item))
      = Some (fst (processSingleQuestion (backend (fst item)) notesData (snd item)))"
    unfolding items final_def by blast
  have "map_get (resultsMap final) (q_text (questions ! i))
        = Some (fst (processSingleQuestion (backend i) notesData (questions ! i)))"
    if "i < length questions" for i
  proof -
    have "(i, questions ! i) \<in> set (enumerate 0 questions)"
      using that by (simp add: in_set_enumerate_eq)
    with all show ?thesis
      by (force simp: map_get_def)
  qed
  then show ?thesis
    by (simp add: generateAnswers_pool_def Let_def final_def list_eq_iff_nth_eq nth_enumerate_eq)
qed

lemma callApiWithRetry_default_const_resolved:
  "callApiWithRetry_default (\<lambda>n. Resolved v) = (Inr v, 1, [])"
  by (simp add: callApiWithRetry_default_def callApiWithRetry_def retry_loop_resolved)

lemma callApiWithRetry_default_const_rejected:
  "\<not> isRateLimitError e \<Longrightarrow> callApiWithRetry_default (\<lambda>n. Rejected e) = (Inl e, 1, [])"
  by (simp add: callApiWithRetry_default_def callApiWithRetry_def retry_loop_other_error)

lemma parseAiResponse_plain_line:
  assumes "CHR 0x0A \<notin> set line" and "\<not> isDirectiveLine line"
  shows "parseAiResponse line = (js_trim line, None)"
  using assms by (simp add: parseAiResponse_def js_split_no_sep)

theorem result_sources_have_uri_witness:
  "\<lparr>uri = ''https://example.org/a'', title = ''A''\<rparr>
     \<in> set (sources (fst (processSingleQuestion
         \<lparr>probeCall = (\<lambda>n. Resolved \<lparr>response_text = Some ''NO'', candidates = None\<rparr>),
          synthesisCall = (\<lambda>n. Resolved
             \<lparr>response_text = Some ''An answer.'',
              candidates = Some [Candidate (Some (GroundingMetadata (Some
                [GroundingChunk (Some (WebRef (Some ''https://example.org/a'') (Some ''A''))),
                 GroundingChunk None,
                 GroundingChunk (Some (WebRef None (Some ''No address'')))])))]\<rparr>),
          imageCall = (\<lambda>n. Rejected (NonError None))\<rparr>
         \<lparr>notes_text = ''notes'', images = []\<rparr>
         \<lparr>q_text = ''What is X?'', q_marks = None\<rparr>)))
   \<and> uri \<lparr>uri = ''https://example.org/a'', title = ''A''\<rparr> \<noteq> []"
proof -
  let ?script = "\<lparr>probeCall = (\<lambda>n. Resolved \<lparr>response_text = Some ''NO'', candidates = None\<rparr>),
          synthesisCall = (\<lambda>n. Resolved
             \<lparr>response_text = Some ''An answer.'',
              candidates = Some [Candidate (Some (GroundingMetadata (Some
                [GroundingChunk (Some (WebRef (Some ''https://example.org/a'') (Some ''A''))),
                 GroundingChunk None,
                 GroundingChunk (Some (WebRef None (Some ''No address'')))])))]\<rparr>),
          imageCall = (\<lambda>n. Rejected (NonError None))\<rparr>"
  let ?notes = "\<lparr>notes_text = ''notes'', images = []\<rparr>"
  let ?q = "\<lparr>q_text = ''What is X?'', q_marks = None\<rparr>"
  have "sources (fst (processSingleQuestion ?script ?notes ?q))
        = [\<lparr>uri = ''https://example.org/a'', title = ''A''\<rparr>]"
    by (simp add: processSingleQuestion_def processQuestionBody_def
        callApiWithRetry_default_const_resolved parseAiResponse_plain_line isDirectiveLine_def
        extractSources_def chunkToSource_def resolveImage_def Let_def)
  then have member: "\<lparr>uri = ''https://example.org/a'', title = ''A''\<rparr>
      \<in> set (sources (fst (processSingleQuestion ?script ?notes ?q)))"
    by simp
  with result_sources_have_uri [of _ ?script ?notes ?q] show ?thesis
    by blast
qed

section \<open>Questions with the same text\<close>

lemma rateLimitMessage_differs: "rateLimitMessage \<noteq> genericFailureMessage"
  by (simp add: rateLimitMessage_def genericFailureMessage_def)

lemma processSingleQuestion_caught:
  "processQuestionBody script notesData questionObj = (Inl error, calls) \<Longrightarrow>
   processSingleQuestion script notesData questionObj
     = (\<lparr>question = q_text questionObj, marks = q_marks questionObj,
         answer = fallbackMessage error, imageUrl = None, sources = []\<rparr>, calls)"
  by (simp add: processSingleQuestion_def)

lemma fallbackMessage_cases:
  "fallbackMessage error = rateLimitMessage \<or> fallbackMessage error = genericFailureMessage"
  by (cases error) (simp_all add: fallbackMessage_def)

lemma fallbackMessage_retries_exhausted:
  "fallbackMessage (JsError ''API rate limit exceeded after multiple retries.'' None)
   = rateLimitMessage"
  by (simp add: fallbackMessage_def)

text \<open>
  C1 at a list with two questions of the same text: the pipeline returns two
  entries, and both are the result of the second question; the result of the first
  question, with its 5 marks and its answer, is not returned.
\<close>

theorem generateAnswers_duplicate_text:
  "returned (generateAnswers (\<lambda>step. 0)
     (\<lambda>k. \<lparr>probeCall = (\<lambda>n. Resolved \<lparr>response_text = Some ''YES'', candidates = None\<rparr>),
           synthesisCall = (\<lambda>n. Resolved
              \<lparr>response_text = Some (if k = 0 then ''Short answer.'' else ''Long answer.''),
               candidates = None\<rparr>),
           imageCall = (\<lambda>n. Rejected (NonError None))\<rparr>)
     \<lparr>notes_text = ''notes'', images = []\<rparr>
     [\<lparr>q_text = ''Define X'', q_marks = Some ''5 marks''\<rparr>,
      \<lparr>q_text = ''Define X'', q_marks = Some ''10 marks''\<rparr>])
   = [Some \<lparr>question = ''Define X'', marks = Some ''10 marks'', answer = ''Long answer.'',
            imageUrl = None, sources = []\<rparr>,
      Some \<lparr>question = ''Define X'', marks = Some ''10 marks'', answer = ''Long answer.'',
            imageUrl = None, sources = []\<rparr>]"
  by (simp add: generateAnswers_def CONCURRENCY_LIMIT_def generateAnswers_pool_def
      initial_state_def enumerate_eq_zip upt_conv_Cons run_workers_step run_workers_done
      worker_resume_def map_get_def
      processSingleQuestion_def processQuestionBody_def
      callApiWithRetry_default_const_resolved needsWebSearch_YES
      parseAiResponse_plain_line isDirectiveLine_def js_trim_def js_whitespace_def
      resolveImage_def extractSources_def del: upt_Suc)

text \<open>
  C2 at a list with two questions of the same text, where the synthesis of the second
  fails: processed alone, the first question has its answer; in the run, the entry of
  the first question is the fallback result of the second.
\<close>

theorem generateAnswers_failure_reaches_duplicate:
  "fst (processSingleQuestion
     \<lparr>probeCall = (\<lambda>n. Resolved \<lparr>response_text = Some ''YES'', candidates = None\<rparr>),
      synthesisCall = (\<lambda>n. Resolved \<lparr>response_text = Some ''Short answer.'', candidates = None\<rparr>),
      imageCall = (\<lambda>n. Rejected (NonError None))\<rparr>
     \<lparr>notes_text = ''notes'', images = []\<rparr>
     \<lparr>q_text = ''Define X'', q_marks = Some ''5 marks''\<rparr>)
   = \<lparr>question = ''Define X'', marks = Some ''5 marks'', answer = ''Short answer.'',
      imageUrl = None, sources = []\<rparr>
   \<and> returned (generateAnswers (\<lambda>step. 0)
     (\<lambda>k. \<lparr>probeCall = (\<lambda>n. Resolved \<lparr>response_text = Some ''YES'', candidates = None\<rparr>),
           synthesisCall = (\<lambda>n. if k = 0
              then Resolved \<lparr>response_text = Some ''Short answer.'', candidates = None\<rparr>
              else Rejected (JsError ''500 Internal Server Error'' None)),
           imageCall = (\<lambda>n. Rejected (NonError None))\<rparr>)
     \<lparr>notes_text = ''notes'', images = []\<rparr>
     [\<lparr>q_text = ''Define X'', q_marks = Some ''5 marks''\<rparr>,
      \<lparr>q_text = ''Define X'', q_marks = Some ''10 marks''\<rparr>])
   = [Some \<lparr>question = ''Define X'', marks = Some ''10 marks'',
            answer = genericFailureMessage, imageUrl = None, sources = []\<rparr>,
      Some \<lparr>question = ''Define X'', marks = Some ''10 marks'',
            answer = genericFailureMessage, imageUrl = None, sources = []\<rparr>]"
  by (simp add: generateAnswers_def CONCURRENCY_LIMIT_def generateAnswers_pool_def
      initial_state_def enumerate_eq_zip upt_conv_Cons run_workers_step run_workers_done
      worker_resume_def map_get_def
      processSingleQuestion_def processQuestionBody_def
      callApiWithRetry_default_const_resolved callApiWithRetry_default_const_rejected
      not_isRateLimitError_500 needsWebSearch_YES fallbackMessage_def
      parseAiResponse_plain_line isDirectiveLine_def js_trim_def js_whitespace_def
      resolveImage_def extractSources_def del: upt_Suc)

end
